theory Spec2Isabelle
  imports Complex_Main "HOL-Library.Char_ord" "HOL-Library.List_Lexorder"
begin

section \<open>float64 arithmetic\<close>

text \<open>
  The batch risk score and the political score are computed by pandas on float64 columns.
  A float64 is modelled by the rational number it stands for, or by one of the three
  special values. The sign of a zero is not kept: it decides only the sign of a quotient by
  zero, and the divisors of the two scores are converted integers, whose zero is \<open>+0\<close>.
\<close>

datatype f64 = Fin rat | PInf | NInf | NaN

text \<open>The position of the leading bit of a positive integer.\<close>

function ilog2 :: "int \<Rightarrow> int" where
  "ilog2 n = (if n < 2 then 0 else 1 + ilog2 (n div 2))"
  by pat_completeness auto

termination ilog2
  by (relation "measure nat") auto

definition pow2 :: "int \<Rightarrow> rat" where
  "pow2 e = (if 0 \<le> e then 2 ^ nat e else 1 / 2 ^ nat (- e))"

text \<open>The exponent \<open>e\<close> with \<open>2 ^ e \<le> a < 2 ^ (e + 1)\<close>, for a positive \<open>a\<close>.\<close>

definition floor_log2 :: "rat \<Rightarrow> int" where
  "floor_log2 a =
     (case quotient_of a of
        (p, q) \<Rightarrow>
          let g = ilog2 p - ilog2 q
          in if a < pow2 g then g - 1 else g)"

text \<open>Rounding to the nearest integer, a tie to the even one.\<close>

definition round_half_even :: "rat \<Rightarrow> int" where
  "round_half_even y =
     (let n = \<lfloor>y\<rfloor>; f = y - of_int n
      in if f < 1 / 2 then n else if 1 / 2 < f then n + 1
         else if even n then n else n + 1)"

text \<open>
  The float64 nearest to a real number (IEEE 754 binary64, round to nearest, ties to even):
  53 significant bits, exponents from -1022 (below it the subnormal spacing \<open>2 ^ -1074\<close>
  stays) to 1023, beyond which the result is infinite.
\<close>

definition f64_round :: "rat \<Rightarrow> f64" where
  "f64_round x =
     (if x = 0 then Fin 0
      else let a = \<bar>x\<bar>;
               e = max (floor_log2 a) (- 1022);
               n = round_half_even (a / pow2 (e - 52))
           in if 1023 < e \<or> (e = 1023 \<and> 2 ^ 53 \<le> n)
              then (if 0 < x then PInf else NInf)
              else Fin (sgn x * of_int n * pow2 (e - 52)))"

text \<open>The conversion of an int64 column value to float64.\<close>

definition f64_of_int :: "int \<Rightarrow> f64" where
  "f64_of_int i = f64_round (of_int i)"

text \<open>Addition, multiplication and division of float64 values.\<close>

fun f64_add :: "f64 \<Rightarrow> f64 \<Rightarrow> f64" where
  "f64_add (Fin a) (Fin b) = f64_round (a + b)"
| "f64_add NaN y = NaN"
| "f64_add x NaN = NaN"
| "f64_add PInf NInf = NaN"
| "f64_add NInf PInf = NaN"
| "f64_add PInf y = PInf"
| "f64_add NInf y = NInf"
| "f64_add x PInf = PInf"
| "f64_add x NInf = NInf"

definition f64_sgn :: "f64 \<Rightarrow> int" where
  "f64_sgn x = (case x of Fin a \<Rightarrow> (if 0 < a then 1 else if a < 0 then - 1 else 0)
                | PInf \<Rightarrow> 1 | NInf \<Rightarrow> - 1 | NaN \<Rightarrow> 0)"

definition f64_inf :: "int \<Rightarrow> f64" where
  "f64_inf s = (if s = 0 then NaN else if 0 < s then PInf else NInf)"

fun f64_mul :: "f64 \<Rightarrow> f64 \<Rightarrow> f64" where
  "f64_mul (Fin a) (Fin b) = f64_round (a * b)"
| "f64_mul NaN y = NaN"
| "f64_mul x NaN = NaN"
| "f64_mul x y = f64_inf (f64_sgn x * f64_sgn y)"

fun f64_div :: "f64 \<Rightarrow> f64 \<Rightarrow> f64" where
  "f64_div (Fin a) (Fin b) =
     (if b = 0 then f64_inf (f64_sgn (Fin a)) else f64_round (a / b))"
| "f64_div NaN y = NaN"
| "f64_div x NaN = NaN"
| "f64_div (Fin a) y = Fin 0"
| "f64_div x (Fin b) = f64_inf (f64_sgn x * (if b < 0 then - 1 else 1))"
| "f64_div x y = NaN"

text \<open>\<open>numpy.rint\<close>: the nearest integer, a tie to the even one.\<close>

definition f64_rint :: "f64 \<Rightarrow> f64" where
  "f64_rint x = (case x of Fin a \<Rightarrow> Fin (of_int (round_half_even a)) | _ \<Rightarrow> x)"

text \<open>
  \<open>Series.round(2)\<close> on a float64 column, which is \<open>numpy.round\<close>: the value is multiplied
  by 100, rounded to an integer and divided by 100, each step in float64.
\<close>

definition np_round2 :: "f64 \<Rightarrow> f64" where
  "np_round2 x = f64_div (f64_rint (f64_mul x (Fin 100))) (Fin 100)"

text \<open>\<open>Series.clip(lo, hi)\<close> on one float64 value: NaN stays NaN.\<close>

definition f64_clip :: "rat \<Rightarrow> rat \<Rightarrow> f64 \<Rightarrow> f64" where
  "f64_clip lo hi x =
     (case x of
        Fin a \<Rightarrow> Fin (if a < lo then lo else if hi < a then hi else a)
      | PInf \<Rightarrow> Fin hi
      | NInf \<Rightarrow> Fin lo
      | NaN \<Rightarrow> NaN)"

section \<open>Numbers and strings of the Python source\<close>

text \<open>
  The amounts, counts and durations that the rule flags compare are modelled by the
  rationals they stand for; a missing value (NaN) of such a column is \<open>None\<close>. The
  built-in \<open>round(x, 2)\<close> of the single-submission path is rounding to the nearest
  multiple of 1/100, ties to the even neighbour. The score columns of the batch pipeline
  and of the political score are float64 and use the arithmetic of the previous section.
\<close>

definition py_round2 :: "rat \<Rightarrow> rat" where
  "py_round2 x =
     (let y = x * 100; n = \<lfloor>y\<rfloor>; f = y - of_int n
      in of_int (if f < 1 / 2 then n else if 1 / 2 < f then n + 1
                 else if even n then n else n + 1) / 100)"

text \<open>\<open>a % b\<close> on numbers: the remainder has the sign of the divisor.\<close>

definition py_mod :: "rat \<Rightarrow> rat \<Rightarrow> rat" where
  "py_mod a b = a - of_int \<lfloor>a / b\<rfloor> * b"

text \<open>
  A Python \<open>str\<close> is a sequence of code points; the model's strings are the sequences of
  code points below 256, one \<open>char\<close> each. \<open>cp\<close> reads the code point.
\<close>

definition cp :: "char \<Rightarrow> nat" where
  "cp c = of_char c"

text \<open>\<open>str.lower()\<close> on one code point: A-Z and the upper-case letters of Latin-1.\<close>

definition lower_char :: "char \<Rightarrow> char" where
  "lower_char c =
     (if (65 \<le> cp c \<and> cp c \<le> 90) \<or> (192 \<le> cp c \<and> cp c \<le> 222 \<and> cp c \<noteq> 215)
      then char_of (cp c + 32) else c)"

definition py_lower :: "string \<Rightarrow> string" where
  "py_lower s = map lower_char s"

section \<open>risk\_engine.py: the single-submission path\<close>

datatype risk_tier = Low | Medium | High

datatype db_error = DbError

record flags =
  flag_single_bidder :: int
  flag_zero_bidders :: int
  flag_short_window :: int
  flag_non_open :: int
  flag_high_value :: int
  flag_buyer_concentration :: int
  flag_round_amount :: int

text \<open>
  \<open>FLAG_WEIGHTS\<close> of risk\_engine.py, in the order of the dictionary: each key is the
  selector of the flag it names.
\<close>

definition FLAG_WEIGHTS :: "((flags \<Rightarrow> int) \<times> int) list" where
  "FLAG_WEIGHTS =
     [(flag_single_bidder, 25), (flag_zero_bidders, 20), (flag_short_window, 15),
      (flag_non_open, 10), (flag_high_value, 10), (flag_buyer_concentration, 10),
      (flag_round_amount, 5)]"

text \<open>
  The two queries that \<open>compute_rule_flags\<close> sends through \<open>fetch_one\<close>. A query either
  raises (\<open>Inl\<close>) or returns a row or no row. The row of the percentile query holds the
  column \<open>p95\<close>, which is NULL (\<open>None\<close>) when the category has no record; the row of the
  share query holds \<open>share\<close>.
\<close>

record db =
  fetch_p95 :: "string \<Rightarrow> db_error + rat option option"
  fetch_share :: "string \<Rightarrow> string \<Rightarrow> db_error + rat option"

text \<open>
  \<open>float(p95["p95"]) if p95 and p95["p95"] else 1e12\<close>: a missing row, a NULL and the
  number 0 are all falsy.
\<close>

definition p95_val :: "rat option option \<Rightarrow> rat" where
  "p95_val p95 =
     (case p95 of
        None \<Rightarrow> 10 ^ 12
      | Some None \<Rightarrow> 10 ^ 12
      | Some (Some v) \<Rightarrow> if v \<noteq> 0 then v else 10 ^ 12)"

definition tier_of :: "rat \<Rightarrow> risk_tier" where
  "tier_of risk_score =
     (if 60 \<le> risk_score then High else if 30 \<le> risk_score then Medium else Low)"

text \<open>
  \<open>compute_rule_flags\<close> of risk\_engine.py. The result is the flags, the risk score and
  the tier; the explanation text, which no flag or score depends on, is left out.
\<close>

definition compute_rule_flags ::
  "db \<Rightarrow> rat \<Rightarrow> rat \<Rightarrow> rat \<Rightarrow> string \<Rightarrow> string \<Rightarrow> string
     \<Rightarrow> db_error + (flags \<times> rat \<times> risk_tier)" where
  "compute_rule_flags d amount num_tenderers duration_days procurement_method category
       buyer_name =
     (case fetch_p95 d category of
        Inl e \<Rightarrow> Inl e
      | Inr p95 \<Rightarrow>
         (case fetch_share d buyer_name category of
            Inl e \<Rightarrow> Inl e
          | Inr buyer_share \<Rightarrow>
             (let fl = \<lparr>
                    flag_single_bidder = (if num_tenderers = 1 then 1 else 0),
                    flag_zero_bidders = (if num_tenderers = 0 then 1 else 0),
                    flag_short_window = (if duration_days < 7 then 1 else 0),
                    flag_non_open =
                      (if py_lower procurement_method \<notin> set [''open tender'', ''open'']
                       then 1 else 0),
                    flag_high_value = (if p95_val p95 < amount then 1 else 0),
                    flag_buyer_concentration =
                      (case buyer_share of
                         None \<Rightarrow> 0
                       | Some share \<Rightarrow> if 7 / 10 < share then 1 else 0),
                    flag_round_amount = (if py_mod amount 100000 = 0 then 1 else 0) \<rparr>;
                  max_weight = sum_list (map snd FLAG_WEIGHTS);
                  weighted_sum = sum_list (map (\<lambda>(k, w). k fl * w) FLAG_WEIGHTS);
                  risk_score = py_round2 (of_int weighted_sum / of_int max_weight * 85)
              in Inr (fl, risk_score, tier_of risk_score))))"

section \<open>ml\_model.py: the batch pipeline\<close>

text \<open>
  A row of the input frame after \<open>pd.to_numeric(..., errors='coerce')\<close>: a numeric cell
  that is missing or does not parse is NaN, a missing text cell is NaN too.
\<close>

record tender =
  value_amount :: "rat option"
  numberOfTenderers :: "rat option"
  durationInDays :: "rat option"
  procurementMethod :: "string option"
  classification :: "string option"
  buyer :: "string option"

text \<open>The columns \<open>engineer_features\<close> adds and the rule flags read.\<close>

record engineered = tender +
  amount :: "rat option"
  num_tenderers :: rat
  duration_days :: rat

text \<open>\<open>Series.median()\<close>: NaN cells are skipped; no cell left gives NaN.\<close>

definition median :: "rat option list \<Rightarrow> rat option" where
  "median col =
     (let xs = sort (concat (map (\<lambda>c. case c of None \<Rightarrow> [] | Some x \<Rightarrow> [x]) col));
          n = length xs
      in if n = 0 then None
         else if odd n then Some (xs ! (n div 2))
         else Some ((xs ! (n div 2 - 1) + xs ! (n div 2)) / 2))"

text \<open>\<open>fillna(m).replace(0, m)\<close> on one cell, \<open>m\<close> possibly NaN.\<close>

definition fill_replace :: "rat option \<Rightarrow> rat option \<Rightarrow> rat option" where
  "fill_replace m c =
     (case c of
        None \<Rightarrow> m
      | Some x \<Rightarrow> if x = 0 then m else Some x)"

definition fillna0 :: "rat option \<Rightarrow> rat" where
  "fillna0 c = (case c of None \<Rightarrow> 0 | Some x \<Rightarrow> x)"

definition engineer_features :: "tender list \<Rightarrow> engineered list" where
  "engineer_features df =
     (let median_amount = median (map value_amount df)
      in map (\<lambda>r. tender.extend r
                 \<lparr> amount = fill_replace median_amount (value_amount r),
                   num_tenderers = fillna0 (numberOfTenderers r),
                   duration_days = fillna0 (durationInDays r) \<rparr>) df)"

text \<open>
  \<open>Series.quantile(0.95)\<close> with the default linear interpolation, over the cells of one
  group that are not NaN.
\<close>

definition quantile95 :: "rat list \<Rightarrow> rat option" where
  "quantile95 xs =
     (let s = sort xs; n = length s
      in if n = 0 then None
         else let h = of_nat (n - 1) * (95 / 100); lo = nat \<lfloor>h :: rat\<rfloor>
              in if lo + 1 < n
                 then Some (s ! lo + (h - of_nat lo) * (s ! (lo + 1) - s ! lo))
                 else Some (s ! lo))"

definition group_amounts :: "engineered list \<Rightarrow> string \<Rightarrow> rat list" where
  "group_amounts df c =
     concat (map (\<lambda>r. if classification r = Some c
                       then (case amount r of None \<Rightarrow> [] | Some a \<Rightarrow> [a]) else []) df)"

text \<open>
  The concentration of a buyer in a category: its rows over the rows of the category,
  among the rows where both keys are present (\<open>groupby\<close> drops NaN keys).
\<close>

definition concentration :: "engineered list \<Rightarrow> string \<Rightarrow> string \<Rightarrow> rat" where
  "concentration df b c =
     of_nat (length (filter (\<lambda>r. buyer r = Some b \<and> classification r = Some c) df))
       / of_nat (length (filter (\<lambda>r. classification r = Some c) df))"

text \<open>
  \<open>compute_rule_flags\<close> of ml\_model.py: the seven flag columns of each row. A comparison
  with NaN is false, so its flag is 0.
\<close>

definition ml_compute_rule_flags :: "engineered list \<Rightarrow> flags list" where
  "ml_compute_rule_flags df =
     map (\<lambda>r. \<lparr>
            flag_single_bidder = (if num_tenderers r = 1 then 1 else 0),
            flag_zero_bidders = (if num_tenderers r = 0 then 1 else 0),
            flag_short_window = (if 0 < duration_days r \<and> duration_days r < 7 then 1 else 0),
            flag_non_open =
              (if procurementMethod r \<in> set (map Some [''Open Tender'']) then 0 else 1),
            flag_high_value =
              (case (amount r, classification r) of
                 (Some a, Some c) \<Rightarrow>
                   (case quantile95 (group_amounts df c) of
                      None \<Rightarrow> 0
                    | Some p95 \<Rightarrow> if p95 < a then 1 else 0)
               | _ \<Rightarrow> 0),
            flag_buyer_concentration =
              (case (buyer r, classification r) of
                 (Some b, Some c) \<Rightarrow> if 7 / 10 < concentration df b c then 1 else 0
               | _ \<Rightarrow> 0),
            flag_round_amount =
              (case amount r of
                 None \<Rightarrow> 0
               | Some a \<Rightarrow> if py_mod a 100000 = 0 then 1 else 0) \<rparr>) df"

text \<open>
  A row as \<open>compute_risk_score\<close> reads it: the seven rule flags and the two columns of
  \<open>run_anomaly_detection\<close>, whose values come from the isolation forest; the anomaly score
  is a float64, NaN when all raw scores are equal.
\<close>

record scored = flags +
  ml_anomaly_flag :: int
  anomaly_score :: f64

text \<open>\<open>FLAG_WEIGHTS\<close> of ml\_model.py: the seven rule flags and the flag of the forest.\<close>

definition ml_FLAG_WEIGHTS :: "((scored \<Rightarrow> int) \<times> int) list" where
  "ml_FLAG_WEIGHTS =
     [(flag_single_bidder, 25), (flag_zero_bidders, 20), (flag_short_window, 15),
      (flag_non_open, 10), (flag_high_value, 10), (flag_buyer_concentration, 10),
      (flag_round_amount, 5), (ml_anomaly_flag, 15)]"

text \<open>
  \<open>pd.cut(x, bins=[0, 30, 60, 100], include_lowest=True)\<close>: the bins are closed on the
  right, the first one also on the left; a value in no bin, and NaN, gives NaN.
\<close>

definition pd_cut :: "f64 \<Rightarrow> risk_tier option" where
  "pd_cut x =
     (case x of
        Fin a \<Rightarrow>
          if 0 \<le> a \<and> a \<le> 30 then Some Low
          else if 30 < a \<and> a \<le> 60 then Some Medium
          else if 60 < a \<and> a \<le> 100 then Some High
          else None
      | _ \<Rightarrow> None)"

text \<open>
  \<open>compute_risk_score\<close>: the columns \<open>risk_score\<close> and \<open>risk_tier\<close> of each row. The rule
  score is an int64 column and \<open>max_rule\<close> an int; the quotient and all that follows are
  float64.
\<close>

definition compute_risk_score :: "scored list \<Rightarrow> (f64 \<times> risk_tier option) list" where
  "compute_risk_score df =
     map (\<lambda>r.
        let rule_score = sum_list (map (\<lambda>(flag, weight). flag r * weight) ml_FLAG_WEIGHTS);
            max_rule = sum_list (map snd ml_FLAG_WEIGHTS);
            risk_score =
              np_round2 (f64_clip 0 100
                (f64_add (f64_mul (f64_div (f64_of_int rule_score) (f64_of_int max_rule))
                            (Fin 85))
                         (f64_mul (anomaly_score r) (Fin 15))))
        in (risk_score, pd_cut risk_score)) df"

section \<open>vendor\_risk\_scorer.py: the political score\<close>

text \<open>
  A row of the bond-flow frame \<open>political_bond_flows.csv\<close> as entity\_resolution.py writes
  it: the two names are present, \<open>total_value\<close> is a sum of integer denominations and
  \<open>total_bonds\<close> a count, both int64 columns (values within the int64 range).
\<close>

record bond_flow =
  purchaser_name :: string
  party_name :: string
  total_value :: int
  total_bonds :: int

text \<open>
  A row of \<open>purchaser_stats\<close>, the frame that \<open>groupby("purchaser_name").agg(...)\<close> builds
  and the three float64 score columns are added to.
\<close>

record purchaser_stat =
  purchaser :: string
  parties_funded :: nat
  total_bond_value :: int
  total_bonds_sum :: int
  party_list :: "string list"

record political = purchaser_stat +
  value_score :: f64
  diversity_score :: f64
  political_score :: f64

text \<open>\<open>Series.unique()\<close>: the distinct values in the order of their first occurrence.\<close>

definition unique :: "'a list \<Rightarrow> 'a list" where
  "unique xs = rev (remdups (rev xs))"

text \<open>The aggregation: one row for each purchaser, in the order of the sorted names.\<close>

definition purchaser_stats :: "bond_flow list \<Rightarrow> purchaser_stat list" where
  "purchaser_stats bond_flows_df =
     map (\<lambda>p. let g = filter (\<lambda>f. purchaser_name f = p) bond_flows_df
              in \<lparr>purchaser = p,
                  parties_funded = length (unique (map party_name g)),
                  total_bond_value = sum_list (map total_value g),
                  total_bonds_sum = sum_list (map total_bonds g),
                  party_list = unique (map party_name g)\<rparr>)
         (sort (remdups (map purchaser_name bond_flows_df)))"

text \<open>
  The three score columns of one row, given the two maxima: \<open>value_score\<close>,
  \<open>diversity_score\<close> and their sum, clipped and rounded. The dividends and the divisors
  \<open>max_value + 1\<close> and \<open>max_parties + 1\<close> are int64; the quotients are float64, infinite or
  NaN when the divisor is 0.
\<close>

definition score_columns :: "int \<Rightarrow> nat \<Rightarrow> purchaser_stat \<Rightarrow> political" where
  "score_columns max_value max_parties r =
     (let vs = f64_mul (f64_div (f64_of_int (total_bond_value r)) (f64_of_int (max_value + 1)))
                 (Fin 60);
          ds = f64_mul (f64_div (f64_of_int (int (parties_funded r)))
                          (f64_of_int (int max_parties + 1)))
                 (Fin 40)
      in purchaser_stat.extend r
           \<lparr>value_score = vs, diversity_score = ds,
            political_score = np_round2 (f64_clip 0 100 (f64_add vs ds))\<rparr>)"

text \<open>
  \<open>compute_political_scores\<close>: the frame \<open>purchaser_stats\<close> with its score columns. An empty
  input returns an empty frame at once. The connection list and the map by CIN, which are
  built from the finished score column, are left out.
\<close>

definition compute_political_scores :: "bond_flow list \<Rightarrow> political list" where
  "compute_political_scores bond_flows_df =
     (if bond_flows_df = [] then []
      else case purchaser_stats bond_flows_df of
        [] \<Rightarrow> []
      | s # ss \<Rightarrow>
         (let max_value = fold max (map total_bond_value ss) (total_bond_value s);
              max_parties = fold max (map parties_funded ss) (parties_funded s)
          in map (score_columns max_value max_parties) (s # ss)))"

section \<open>company\_risk\_scorer.py: address clusters and the address network\<close>

text \<open>
  A row of the company frame once \<open>addr_key\<close> holds the key that \<open>normalise_address\<close>
  computed from the registered address.
\<close>

record company =
  CIN :: string
  addr_key :: string

record clustered = company +
  address_cluster_size :: nat
  address_cluster_flag :: int

text \<open>\<open>value_counts()\<close>: the number of rows of each key that occurs.\<close>

definition addr_counts :: "company list \<Rightarrow> string \<Rightarrow> nat option" where
  "addr_counts df k =
     (let n = length (filter (\<lambda>r. addr_key r = k) df) in if n = 0 then None else Some n)"

text \<open>Step 2 of \<open>score_companies\<close>: \<open>map(addr_counts).fillna(1)\<close> and the flag.\<close>

definition address_clustering :: "company list \<Rightarrow> clustered list" where
  "address_clustering df =
     map (\<lambda>r. let size = (case addr_counts df (addr_key r) of None \<Rightarrow> 1 | Some n \<Rightarrow> n)
              in company.extend r
                   \<lparr>address_cluster_size = size,
                    address_cluster_flag = (if 3 \<le> size then 1 else 0)\<rparr>) df"

text \<open>
  The graph: the nodes and the \<open>add_edge\<close> calls in their order. The graph of networkx is
  undirected, so an edge joins its two ends in either order.
\<close>

record graph =
  nodes :: "string list"
  edges :: "(string \<times> string) list"

definition has_edge :: "graph \<Rightarrow> string \<Rightarrow> string \<Rightarrow> bool" where
  "has_edge G a b = ((a, b) \<in> set (edges G) \<or> (b, a) \<in> set (edges G))"

text \<open>
  \<open>df[df["address_cluster_size"] >= 2].groupby("addr_key")["CIN"].apply(list)\<close>: the keys in
  sorted order, each with the CINs of its rows in the order of the frame.
\<close>

definition clusters :: "clustered list \<Rightarrow> (string \<times> string list) list" where
  "clusters df =
     (let big = filter (\<lambda>r. 2 \<le> address_cluster_size r) df
      in map (\<lambda>k. (k, map CIN (filter (\<lambda>r. addr_key r = k) big)))
           (sort (remdups (map addr_key big))))"

text \<open>The two nested loops over one cluster.\<close>

definition cluster_edges :: "string list \<Rightarrow> (string \<times> string) list" where
  "cluster_edges cins =
     concat (map (\<lambda>i. map (\<lambda>j. (cins ! i, cins ! j)) [i + 1 ..< length cins])
               [0 ..< length cins])"

text \<open>Step 7 of \<open>score_companies\<close>, up to the graph.\<close>

definition address_network :: "clustered list \<Rightarrow> graph" where
  "address_network df =
     \<lparr>nodes = map CIN df,
      edges = concat (map (\<lambda>(k, cins).
                 if 1 < length cins \<and> length cins \<le> 50 then cluster_edges cins else [])
               (clusters df))\<rparr>"

text \<open>
  \<open>score_companies\<close>: the frame with the two address columns, and the graph. The capital,
  age and status columns and the centrality, which do not enter the address columns or
  the edges, are left out.
\<close>

definition score_companies :: "company list \<Rightarrow> clustered list \<times> graph" where
  "score_companies df =
     (let df2 = address_clustering df in (df2, address_network df2))"

text \<open>The size of the address cluster of a key: the number of rows that have the key.\<close>

definition cluster_size_of :: "company list \<Rightarrow> string \<Rightarrow> nat" where
  "cluster_size_of df k = length (filter (\<lambda>r. addr_key r = k) df)"

section \<open>entity\_resolution.py: names, tokens and matches\<close>

text \<open>
  The character classes of Python on the code points below 256: \<open>str.isspace\<close> (which is
  also \<open>\s\<close> of \<open>re\<close> and what \<open>strip\<close> and \<open>split\<close> remove), the class \<open>[a-z0-9]\<close>, and
  \<open>\w\<close> of \<open>re\<close>, the alphanumeric code points and the underscore, which decides \<open>\b\<close>.
\<close>

definition py_isspace :: "char \<Rightarrow> bool" where
  "py_isspace c = (cp c \<in> set [9, 10, 11, 12, 13, 28, 29, 30, 31, 32, 133, 160])"

definition is_az09 :: "char \<Rightarrow> bool" where
  "is_az09 c = ((97 \<le> cp c \<and> cp c \<le> 122) \<or> (48 \<le> cp c \<and> cp c \<le> 57))"

definition re_word :: "char \<Rightarrow> bool" where
  "re_word c =
     ((48 \<le> cp c \<and> cp c \<le> 57) \<or> (65 \<le> cp c \<and> cp c \<le> 90) \<or> cp c = 95
      \<or> (97 \<le> cp c \<and> cp c \<le> 122)
      \<or> cp c \<in> set [170, 178, 179, 181, 185, 186, 188, 189, 190]
      \<or> (192 \<le> cp c \<and> cp c \<le> 214) \<or> (216 \<le> cp c \<and> cp c \<le> 246) \<or> 248 \<le> cp c)"

text \<open>\<open>str.strip()\<close>: the white space at both ends is removed.\<close>

definition py_strip :: "string \<Rightarrow> string" where
  "py_strip s = rev (dropWhile py_isspace (rev (dropWhile py_isspace s)))"

text \<open>
  \<open>re.sub(r"\bPAT\b", "", s)\<close> for a pattern of literal characters, scanning from the
  left. \<open>pw\<close> tells whether the character before the position is a word character (at the
  start of the string there is none). A match needs the pattern at the position, a word
  boundary before it and a word boundary after it; the scan goes on behind the match.
\<close>

definition next_is_word :: "string \<Rightarrow> bool" where
  "next_is_word s = (case s of [] \<Rightarrow> False | c # _ \<Rightarrow> re_word c)"

definition match_here :: "string \<Rightarrow> bool \<Rightarrow> string \<Rightarrow> bool" where
  "match_here pat pw s =
     (pat \<noteq> [] \<and> take (length pat) s = pat
      \<and> pw \<noteq> re_word (hd pat)
      \<and> re_word (last pat) \<noteq> next_is_word (drop (length pat) s))"

function re_sub_word :: "string \<Rightarrow> bool \<Rightarrow> string \<Rightarrow> string" where
  "re_sub_word pat pw [] = []"
| "re_sub_word pat pw (c # cs) =
     (if match_here pat pw (c # cs)
      then re_sub_word pat (re_word (last pat)) (drop (length pat) (c # cs))
      else c # re_sub_word pat (re_word c) cs)"
  by pat_completeness auto
termination
  by (relation "measure (\<lambda>(pat, pw, s). length s)") (auto simp: match_here_def)

text \<open>\<open>re.sub(r"\s+", " ", s)\<close>: every run of white space becomes one space.\<close>

function collapse_ws :: "string \<Rightarrow> string" where
  "collapse_ws [] = []"
| "collapse_ws (c # cs) =
     (if py_isspace c then CHR '' '' # collapse_ws (dropWhile py_isspace cs)
      else c # collapse_ws cs)"
  by pat_completeness auto
termination
  by (relation "measure length") (auto simp: less_Suc_eq_le length_dropWhile_le)

text \<open>The words of \<open>STRIP_SUFFIXES\<close>, each between two \<open>\b\<close> in the source.\<close>

definition STRIP_SUFFIXES :: "string list" where
  "STRIP_SUFFIXES =
     [''private'', ''limited'', ''pvt'', ''ltd'', ''llp'', ''opc'', ''inc'', ''corp'',
      ''company'', ''enterprises'', ''group'', ''foundation'', ''trust'']"

text \<open>A Python object that reaches \<open>normalise_name\<close>: a string, or something else.\<close>

datatype py_object = Str string | Float rat | NoneObj

definition normalise_name :: "py_object \<Rightarrow> string" where
  "normalise_name name =
     (case name of
        Str s \<Rightarrow>
          (let n1 = py_strip (py_lower s);
               n2 = map (\<lambda>c. if is_az09 c \<or> py_isspace c then c else CHR '' '') n1;
               n3 = foldl (\<lambda>n pattern. re_sub_word pattern False n) n2 STRIP_SUFFIXES
           in py_strip (collapse_ws n3))
      | _ \<Rightarrow> [])"

text \<open>\<open>str.split()\<close>: the maximal runs of characters that are not white space.\<close>

function py_split :: "string \<Rightarrow> string list" where
  "py_split s =
     (case dropWhile py_isspace s of
        [] \<Rightarrow> []
      | c # cs \<Rightarrow> (c # takeWhile (\<lambda>x. \<not> py_isspace x) cs)
                  # py_split (dropWhile (\<lambda>x. \<not> py_isspace x) cs))"
  by pat_completeness auto
termination
proof (relation "measure length")
  fix s c cs
  assume "dropWhile py_isspace s = c # cs"
  then have "length (c # cs) \<le> length s"
    by (metis length_dropWhile_le)
  moreover have "length (dropWhile (\<lambda>x. \<not> py_isspace x) cs) \<le> length cs"
    by (rule length_dropWhile_le)
  ultimately show "(dropWhile (\<lambda>x. \<not> py_isspace x) cs, s) \<in> measure length"
    by simp
qed simp

definition tokenise :: "string \<Rightarrow> string set" where
  "tokenise name = set (filter (\<lambda>t. 1 < length t) (py_split name))"

definition jaccard_similarity :: "string set \<Rightarrow> string set \<Rightarrow> rat" where
  "jaccard_similarity set_a set_b =
     (if set_a = {} \<or> set_b = {} then 0
      else of_nat (card (set_a \<inter> set_b)) / of_nat (card (set_a \<union> set_b)))"

text \<open>An index entry: the id, the raw name, the normalised name and its tokens.\<close>

type_synonym 'i entry = "'i \<times> py_object \<times> string \<times> string set"

text \<open>
  \<open>build_inverted_index\<close>: the entries in the order of the input, and the index, which
  lists under each token the entries that contain it, in the same order; a token of no
  entry has the empty list (what \<open>index.get(token, [])\<close> reads).
\<close>

definition build_inverted_index ::
  "('i \<times> py_object) list \<Rightarrow> (string \<Rightarrow> 'i entry list) \<times> 'i entry list" where
  "build_inverted_index names_with_ids =
     (let entries = map (\<lambda>(entity_id, raw_name).
                      let norm = normalise_name raw_name
                      in (entity_id, raw_name, norm, tokenise norm)) names_with_ids
      in (\<lambda>token. filter (\<lambda>(_, _, _, tokens). token \<in> tokens) entries, entries))"

text \<open>\<open>results[:top_k]\<close>: a negative \<open>top_k\<close> counts from the end.\<close>

definition py_slice_to :: "int \<Rightarrow> 'a list \<Rightarrow> 'a list" where
  "py_slice_to k xs = (if 0 \<le> k then take (nat k) xs else take (nat (int (length xs) + k)) xs)"

text \<open>
  The candidate loop of \<open>find_matches\<close>: the dictionary of scored candidates in the order
  of insertion, an id being scored when it is first met.
\<close>

definition gather_candidates ::
  "string set \<Rightarrow> (string \<Rightarrow> 'i entry list) \<Rightarrow> string list
     \<Rightarrow> ('i \<times> 'i entry \<times> rat) list" where
  "gather_candidates query_tokens index toks =
     foldl (\<lambda>acc token.
        foldl (\<lambda>acc entry.
           if fst entry \<in> set (map fst acc) then acc
           else acc @ [(fst entry, entry,
                        jaccard_similarity query_tokens (snd (snd (snd entry))))])
          acc (index token))
       [] toks"

text \<open>
  \<open>find_matches\<close>. Python does not fix the order in which a set is iterated; \<open>order\<close> is
  the order in which the loop meets the tokens of the query. The sort is stable and
  descending in the score.
\<close>

definition find_matches ::
  "(string set \<Rightarrow> string list) \<Rightarrow> py_object \<Rightarrow> (string \<Rightarrow> 'i entry list) \<Rightarrow> 'i entry list
     \<Rightarrow> rat \<Rightarrow> int \<Rightarrow> ('i \<times> py_object \<times> rat) list" where
  "find_matches order query_name index entries threshold top_k =
     (let norm_query = normalise_name query_name;
          query_tokens = tokenise norm_query
      in if query_tokens = {} then []
         else case find (\<lambda>entry. fst (snd (snd entry)) = norm_query) entries of
           Some entry \<Rightarrow> [(fst entry, fst (snd entry), 1)]
         | None \<Rightarrow>
            (let candidates = gather_candidates query_tokens index (order query_tokens);
                 results = map (\<lambda>(eid, entry, score). (eid, fst (snd entry), score))
                             (filter (\<lambda>(eid, entry, score). threshold \<le> score) candidates)
             in py_slice_to top_k (sort_key (\<lambda>(eid, raw, score). - score) results)))"

text \<open>
  Notions used to state what \<open>normalise_name\<close> returns: \<open>" ".join(words)\<close>; a word of
  the class \<open>[a-z0-9]\<close>; a string that holds only such characters and white space.
\<close>

fun join_space :: "string list \<Rightarrow> string" where
  "join_space [] = []"
| "join_space [w] = w"
| "join_space (w # v # ws) = w @ CHR '' '' # join_space (v # ws)"

definition az_word :: "string \<Rightarrow> bool" where
  "az_word w = (w \<noteq> [] \<and> list_all is_az09 w)"

definition clean :: "string \<Rightarrow> bool" where
  "clean s = list_all (\<lambda>c. is_az09 c \<or> py_isspace c) s"

text \<open>A rest of a string at which a word ends: the end, or white space.\<close>

definition at_break :: "string \<Rightarrow> bool" where
  "at_break t = (case t of [] \<Rightarrow> True | c # _ \<Rightarrow> py_isspace c)"

section \<open>Example inputs\<close>

definition example_db :: db where
  "example_db = \<lparr>fetch_p95 = (\<lambda>c. Inr (Some None)), fetch_share = (\<lambda>b c. Inr (Some 0))\<rparr>"

definition example_tender :: "rat option \<Rightarrow> rat option \<Rightarrow> string \<Rightarrow> tender" where
  "example_tender a dur pm =
     \<lparr>value_amount = a, numberOfTenderers = Some 3, durationInDays = dur,
      procurementMethod = Some pm, classification = Some ''Roads'', buyer = Some ''PWD''\<rparr>"

definition example_scored ::
  "int \<Rightarrow> int \<Rightarrow> int \<Rightarrow> int \<Rightarrow> int \<Rightarrow> int \<Rightarrow> int \<Rightarrow> int \<Rightarrow> f64 \<Rightarrow> scored" where
  "example_scored f1 f2 f3 f4 f5 f6 f7 ml a =
     \<lparr>flag_single_bidder = f1, flag_zero_bidders = f2, flag_short_window = f3,
      flag_non_open = f4, flag_high_value = f5, flag_buyer_concentration = f6,
      flag_round_amount = f7, ml_anomaly_flag = ml, anomaly_score = a\<rparr>"

definition example_flow :: "string \<Rightarrow> string \<Rightarrow> int \<Rightarrow> bond_flow" where
  "example_flow p q v = \<lparr>purchaser_name = p, party_name = q, total_value = v, total_bonds = 1\<rparr>"

definition example_company :: "string \<Rightarrow> string \<Rightarrow> company" where
  "example_company c k = \<lparr>CIN = c, addr_key = k\<rparr>"

section \<open>Properties of the rule flags and the risk score\<close>

lemma sum_FLAG_WEIGHTS: "sum_list (map snd FLAG_WEIGHTS) = 95"
  by (simp add: FLAG_WEIGHTS_def)

lemma sum_ml_FLAG_WEIGHTS: "sum_list (map snd ml_FLAG_WEIGHTS) = 110"
  by (simp add: ml_FLAG_WEIGHTS_def)

lemma compute_rule_flags_InrE:
  assumes "compute_rule_flags d a n dur pm cat b = Inr (fl, s, t)"
  obtains p95 sh where "fetch_p95 d cat = Inr p95" and "fetch_share d b cat = Inr sh"
    and "flag_single_bidder fl = (if n = 1 then 1 else 0)"
    and "flag_zero_bidders fl = (if n = 0 then 1 else 0)"
    and "flag_short_window fl = (if dur < 7 then 1 else 0)"
    and "flag_non_open fl = (if py_lower pm \<notin> set [''open tender'', ''open''] then 1 else 0)"
    and "flag_high_value fl = (if p95_val p95 < a then 1 else 0)"
    and "flag_buyer_concentration fl =
           (case sh of None \<Rightarrow> 0 | Some share \<Rightarrow> if 7 / 10 < share then 1 else 0)"
    and "flag_round_amount fl = (if py_mod a 100000 = 0 then 1 else 0)"
    and "s = py_round2 (of_int (sum_list (map (\<lambda>(k, w). k fl * w) FLAG_WEIGHTS))
                          / of_int (sum_list (map snd FLAG_WEIGHTS)) * 85)"
    and "t = tier_of s"
  using assms unfolding compute_rule_flags_def Let_def
  by (auto split: sum.splits)


text \<open>
  Claim C7. The short-window flag of the batch pipeline fires exactly when
  \<open>0 < duration_days < 7\<close>, the one of the single-submission path exactly when
  \<open>duration_days < 7\<close>, and on the same duration the two flags differ exactly when
  \<open>duration_days \<le> 0\<close>.
\<close>

theorem short_window_modes:
  assumes "compute_rule_flags d a n (duration_days r) pm cat b = Inr (fl, s, t)"
    and "i < length df" and "df ! i = r"
  shows "(flag_short_window (ml_compute_rule_flags df ! i) = 1
            \<longleftrightarrow> 0 < duration_days r \<and> duration_days r < 7)
       \<and> (flag_short_window fl = 1 \<longleftrightarrow> duration_days r < 7)
       \<and> (flag_short_window (ml_compute_rule_flags df ! i) \<noteq> flag_short_window fl
            \<longleftrightarrow> duration_days r \<le> 0)"
proof -
  from assms(1) have single: "flag_short_window fl = (if duration_days r < 7 then 1 else 0)"
    by (rule compute_rule_flags_InrE)
  from assms(2,3) have batch: "flag_short_window (ml_compute_rule_flags df ! i) =
      (if 0 < duration_days r \<and> duration_days r < 7 then 1 else 0)"
    by (simp add: ml_compute_rule_flags_def)
  show ?thesis unfolding single batch by auto
qed

theorem short_window_modes_witness:
  "compute_rule_flags example_db 1234 3
       (duration_days (engineer_features [example_tender (Some 1234) None ''Open Tender''] ! 0))
       ''Open Tender'' ''Roads'' ''PWD''
     = Inr (\<lparr>flag_single_bidder = 0, flag_zero_bidders = 0, flag_short_window = 1,
             flag_non_open = 0, flag_high_value = 0, flag_buyer_concentration = 0,
             flag_round_amount = 0\<rparr>, 671 / 50, Low)
   \<and> flag_short_window
        (ml_compute_rule_flags (engineer_features [example_tender (Some 1234) None ''Open Tender'']) ! 0) \<noteq> 1
   \<and> duration_days (engineer_features [example_tender (Some 1234) None ''Open Tender''] ! 0) \<le> 0"
proof -
  let ?df = "engineer_features [example_tender (Some 1234) None ''Open Tender'']"
  have h1: "compute_rule_flags example_db 1234 3 (duration_days (?df ! 0))
       ''Open Tender'' ''Roads'' ''PWD''
     = Inr (\<lparr>flag_single_bidder = 0, flag_zero_bidders = 0, flag_short_window = 1,
             flag_non_open = 0, flag_high_value = 0, flag_buyer_concentration = 0,
             flag_round_amount = 0\<rparr>, 671 / 50, Low)"
    unfolding example_db_def example_tender_def by code_simp
  have h2: "0 < length ?df" by (simp add: engineer_features_def)
  have h3: "duration_days (?df ! 0) = 0"
    by (simp add: engineer_features_def example_tender_def tender.extend_def fillna0_def)
  from short_window_modes [OF h1 h2 refl] h3
  have "flag_short_window (ml_compute_rule_flags ?df ! 0) \<noteq> 1"
    by simp
  with h1 h3 show ?thesis by simp
qed







text \<open>
  Claim C9, as stated, fails: with no percentile for the category (the query returns NULL),
  the threshold is the finite number \<open>1e12\<close> and an amount above it fires the flag.
\<close>

theorem high_value_sentinel_counterexample:
  "compute_rule_flags example_db (2 * 10 ^ 12) 3 10 ''Open Tender'' ''Roads'' ''PWD''
     = Inr (\<lparr>flag_single_bidder = 0, flag_zero_bidders = 0, flag_short_window = 0,
             flag_non_open = 0, flag_high_value = 1, flag_buyer_concentration = 0,
             flag_round_amount = 1\<rparr>, 671 / 50, Low)
   \<and> fetch_p95 example_db ''Roads'' = Inr (Some None)"
  unfolding example_db_def by code_simp

text \<open>
  Claim C9, amended. When the percentile query returns no row or NULL and the share query
  returns, \<open>compute_rule_flags\<close> returns a result (it does not raise), and the high-value
  flag fires exactly when the amount exceeds \<open>1e12\<close>; so it does not fire for any amount up
  to \<open>1e12\<close>.
\<close>

theorem high_value_empty_category:
  assumes "fetch_p95 d cat = Inr None \<or> fetch_p95 d cat = Inr (Some None)"
    and "fetch_share d b cat = Inr sh"
  shows "\<exists>fl s t. compute_rule_flags d a n dur pm cat b = Inr (fl, s, t)
           \<and> (flag_high_value fl = 1 \<longleftrightarrow> 10 ^ 12 < a)"
  using assms unfolding compute_rule_flags_def Let_def
  by (auto simp: p95_val_def)

theorem high_value_empty_category_witness:
  "(fetch_p95 example_db ''Roads'' = Inr None \<or> fetch_p95 example_db ''Roads'' = Inr (Some None))
   \<and> fetch_share example_db ''PWD'' ''Roads'' = Inr (Some 0)
   \<and> (\<exists>fl s t. compute_rule_flags example_db 500000 3 10 ''Open Tender'' ''Roads'' ''PWD''
                  = Inr (fl, s, t)
         \<and> (flag_high_value fl = 1 \<longleftrightarrow> (10 :: rat) ^ 12 < 500000))"
proof -
  have h1: "fetch_p95 example_db ''Roads'' = Inr None
            \<or> fetch_p95 example_db ''Roads'' = Inr (Some None)"
    by (simp add: example_db_def)
  have h2: "fetch_share example_db ''PWD'' ''Roads'' = Inr (Some 0)"
    by (simp add: example_db_def)
  from high_value_empty_category [OF h1 h2] h1 h2 show ?thesis by blast
qed

text \<open>
  Claim C6 on the batch pipeline: \<open>isin(['Open Tender'])\<close> compares the text as it is, so
  the methods "open tender", "Open" and "OPEN TENDER" fire the non-open flag there, while the
  single-submission path lower-cases the method and does not fire on "open tender".
\<close>

theorem non_open_batch_case_sensitive:
  "map flag_non_open (ml_compute_rule_flags (engineer_features
      [example_tender (Some 1234) (Some 10) ''open tender'',
       example_tender (Some 1234) (Some 10) ''Open'',
       example_tender (Some 1234) (Some 10) ''OPEN TENDER'',
       example_tender (Some 1234) (Some 10) ''Open Tender''])) = [1, 1, 1, 0]
   \<and> compute_rule_flags example_db 1234 3 10 ''open tender'' ''Roads'' ''PWD''
     = Inr (\<lparr>flag_single_bidder = 0, flag_zero_bidders = 0, flag_short_window = 0,
             flag_non_open = 0, flag_high_value = 0, flag_buyer_concentration = 0,
             flag_round_amount = 0\<rparr>, 0, Low)"
  unfolding example_db_def example_tender_def by code_simp

text \<open>
  Claim C3 on the batch pipeline: the bins of \<open>pd.cut\<close> are closed on the right, so the
  score 30 is in the tier Low and the score 60 in the tier Medium, while the thresholds of
  the single-submission path put 30 in Medium and 60 in High.
\<close>

theorem risk_tier_boundary_batch:
  "compute_risk_score [example_scored 1 0 0 0 0 0 0 0 (f64_round (7121 / 10000))]
     = [(Fin 30, Some Low)]
   \<and> compute_risk_score [example_scored 1 0 1 1 1 1 0 0 (f64_round (3939 / 10000))]
     = [(Fin 60, Some Medium)]
   \<and> tier_of 30 = Medium \<and> tier_of 60 = High"
  by (simp add: compute_risk_score_def example_scored_def ml_FLAG_WEIGHTS_def Let_def
        tier_of_def, code_simp)

text \<open>
  Claim C1 on the batch pipeline: \<open>FLAG_WEIGHTS\<close> of ml\_model.py has eight entries, whose
  sum 110 is the divisor, while the single-submission path divides by 95. A row with only
  the single-bidder flag, \<open>ml_anomaly_flag\<close> 0 and anomaly score 0 scores 19.32 in the batch,
  while the formula of the claim (in float64) and the single-submission path give 22.37; a
  row with all seven rule flags and no ML term scores 73.41, not 85.
\<close>

theorem blended_score_batch_denominator:
  "compute_risk_score [example_scored 1 0 0 0 0 0 0 0 (Fin 0)]
     = [(f64_round (1932 / 100), Some Low)]
   \<and> np_round2 (f64_clip 0 100
        (f64_add (f64_mul (f64_div (f64_of_int (1 * 25)) (f64_of_int 95)) (Fin 85))
                 (f64_mul (Fin 0) (Fin 15)))) = f64_round (2237 / 100)
   \<and> compute_rule_flags example_db 1234 1 10 ''Open Tender'' ''Roads'' ''PWD''
     = Inr (\<lparr>flag_single_bidder = 1, flag_zero_bidders = 0, flag_short_window = 0,
             flag_non_open = 0, flag_high_value = 0, flag_buyer_concentration = 0,
             flag_round_amount = 0\<rparr>, 2237 / 100, Low)
   \<and> compute_risk_score [example_scored 1 1 1 1 1 1 1 0 (Fin 0)]
     = [(f64_round (7341 / 100), Some High)]
   \<and> sum_list (map snd ml_FLAG_WEIGHTS) = 110 \<and> sum_list (map snd FLAG_WEIGHTS) = 95"
  by (simp add: compute_risk_score_def example_scored_def ml_FLAG_WEIGHTS_def Let_def
        example_db_def FLAG_WEIGHTS_def, code_simp)
section \<open>Properties of the political score\<close>

lemma fold_max_eq_Max:
  fixes f :: "'a \<Rightarrow> 'b::linorder"
  shows "fold max (map f ss) (f s) = Max (f ` set (s # ss))"
proof -
  have "Max (set (f s # map f ss)) = fold max (map f ss) (f s)"
    by (rule Max.set_eq_fold)
  then show ?thesis by simp
qed

lemma length_unique: "length (unique xs) = card (set xs)"
  by (simp add: unique_def length_remdups_card_conv)

lemma purchaser_stats_mem:
  assumes "r \<in> set (purchaser_stats df)"
  shows "(\<exists>f\<in>set df. purchaser_name f = purchaser r)
       \<and> total_bond_value r
           = sum_list (map total_value (filter (\<lambda>f. purchaser_name f = purchaser r) df))
       \<and> parties_funded r
           = card (party_name ` {f \<in> set df. purchaser_name f = purchaser r})"
proof -
  from assms obtain p where p: "p \<in> set df" 
    and r: "r = (let g = filter (\<lambda>f. purchaser_name f = purchaser_name p) df
              in \<lparr>purchaser = purchaser_name p,
                  parties_funded = length (unique (map party_name g)),
                  total_bond_value = sum_list (map total_value g),
                  total_bonds_sum = sum_list (map total_bonds g),
                  party_list = unique (map party_name g)\<rparr>)"
    by (auto simp: purchaser_stats_def)
  have "set (map party_name (filter (\<lambda>f. purchaser_name f = purchaser_name p) df))
      = party_name ` {f \<in> set df. purchaser_name f = purchaser_name p}"
    by auto
  with p show ?thesis
    unfolding r Let_def by (auto simp: length_unique)
qed

lemma purchaser_stats_ex:
  assumes "f \<in> set df"
  shows "\<exists>r\<in>set (purchaser_stats df). purchaser r = purchaser_name f"
proof -
  let ?mk = "\<lambda>p. let g = filter (\<lambda>f. purchaser_name f = p) df
              in \<lparr>purchaser = p,
                  parties_funded = length (unique (map party_name g)),
                  total_bond_value = sum_list (map total_value g),
                  total_bonds_sum = sum_list (map total_bonds g),
                  party_list = unique (map party_name g)\<rparr>"
  from assms have "?mk (purchaser_name f) \<in> set (purchaser_stats df)"
    by (simp add: purchaser_stats_def)
  moreover have "purchaser (?mk (purchaser_name f)) = purchaser_name f"
    by (simp add: Let_def)
  ultimately show ?thesis by blast
qed

lemma purchaser_stats_unique:
  assumes "r \<in> set (purchaser_stats df)" and "r' \<in> set (purchaser_stats df)"
    and "purchaser r = purchaser r'"
  shows "r = r'"
  using assms by (auto simp: purchaser_stats_def Let_def)

lemma total_bond_value_image:
  "total_bond_value ` set (purchaser_stats df)
     = (\<lambda>p. sum_list (map total_value (filter (\<lambda>g. purchaser_name g = p) df)))
         ` purchaser_name ` set df"
  by (auto simp: purchaser_stats_def Let_def image_iff)

lemma parties_funded_image:
  "parties_funded ` set (purchaser_stats df)
     = (\<lambda>p. card (party_name ` {g \<in> set df. purchaser_name g = p})) ` purchaser_name ` set df"
proof -
  have "length (unique (map party_name (filter (\<lambda>f. purchaser_name f = p) df)))
      = card (party_name ` {g \<in> set df. purchaser_name g = p})" for p
  proof -
    have "set (map party_name (filter (\<lambda>f. purchaser_name f = p) df))
        = party_name ` {g \<in> set df. purchaser_name g = p}"
      by auto
    then show ?thesis by (simp only: length_unique)
  qed
  then show ?thesis
    by (auto simp: purchaser_stats_def Let_def image_iff)
qed

lemma compute_political_scores_set:
  "set (compute_political_scores df)
     = score_columns (Max (total_bond_value ` set (purchaser_stats df)))
         (Max (parties_funded ` set (purchaser_stats df))) ` set (purchaser_stats df)"
proof (cases "purchaser_stats df")
  case Nil
  then show ?thesis by (simp add: compute_political_scores_def)
next
  case (Cons s ss)
  then have "df \<noteq> []" by (auto simp: purchaser_stats_def)
  with Cons show ?thesis
    unfolding compute_political_scores_def Let_def fold_max_eq_Max by simp
qed

lemma score_columns_fields:
  "purchaser (score_columns m p r) = purchaser r"
  "parties_funded (score_columns m p r) = parties_funded r"
  "total_bond_value (score_columns m p r) = total_bond_value r"
  "political_score (score_columns m p r) =
     np_round2 (f64_clip 0 100
       (f64_add (f64_mul (f64_div (f64_of_int (total_bond_value r)) (f64_of_int (m + 1)))
                   (Fin 60))
                (f64_mul (f64_div (f64_of_int (int (parties_funded r)))
                            (f64_of_int (int p + 1)))
                   (Fin 40))))"
  by (simp_all add: score_columns_def Let_def purchaser_stat.extend_def purchaser_stat.defs)

text \<open>
  Claim C2, amended. Every purchaser with at least one flow has exactly one row in the
  result. Its total and its party count are the sum of the values and the number of
  distinct parties over its flows, and its political score is, in float64,
  \<open>total / (max_total + 1) * 60 + parties / (max_parties + 1) * 40\<close>, clipped to [0, 100] and
  rounded to two decimals by \<open>numpy.round\<close>, where the two maxima are taken over all
  purchasers: both divisors are one more than the maximum.
\<close>

theorem political_score_formula:
  assumes "f \<in> set df"
  shows "\<exists>r\<in>set (compute_political_scores df).
           purchaser r = purchaser_name f
         \<and> (\<forall>r'\<in>set (compute_political_scores df). purchaser r' = purchaser_name f \<longrightarrow> r' = r)
         \<and> total_bond_value r
             = sum_list (map total_value (filter (\<lambda>g. purchaser_name g = purchaser_name f) df))
         \<and> parties_funded r
             = card (party_name ` {g \<in> set df. purchaser_name g = purchaser_name f})
         \<and> political_score r
             = np_round2 (f64_clip 0 100
                 (f64_add
                    (f64_mul
                       (f64_div (f64_of_int (total_bond_value r))
                          (f64_of_int
                             (Max ((\<lambda>p. sum_list (map total_value
                                           (filter (\<lambda>g. purchaser_name g = p) df)))
                                     ` purchaser_name ` set df) + 1)))
                       (Fin 60))
                    (f64_mul
                       (f64_div (f64_of_int (int (parties_funded r)))
                          (f64_of_int
                             (int (Max ((\<lambda>p. card (party_name
                                                ` {g \<in> set df. purchaser_name g = p}))
                                          ` purchaser_name ` set df)) + 1)))
                       (Fin 40))))"
proof -
  let ?M = "Max (total_bond_value ` set (purchaser_stats df))"
  let ?P = "Max (parties_funded ` set (purchaser_stats df))"
  from assms obtain r0 where r0: "r0 \<in> set (purchaser_stats df)"
    and p0: "purchaser r0 = purchaser_name f"
    using purchaser_stats_ex by blast
  define r where "r = score_columns ?M ?P r0"
  have mem: "r \<in> set (compute_political_scores df)"
    unfolding r_def compute_political_scores_set using r0 by (rule imageI)
  have pr: "purchaser r = purchaser_name f"
    unfolding r_def score_columns_fields by (rule p0)
  have uniq: "\<forall>r'\<in>set (compute_political_scores df).
      purchaser r' = purchaser_name f \<longrightarrow> r' = r"
  proof (intro ballI impI)
    fix r' assume "r' \<in> set (compute_political_scores df)"
      and p': "purchaser r' = purchaser_name f"
    then obtain r1 where r1: "r1 \<in> set (purchaser_stats df)"
      and e1: "r' = score_columns ?M ?P r1"
      unfolding compute_political_scores_set by blast
    from p' have "purchaser r1 = purchaser r0"
      unfolding e1 score_columns_fields p0 .
    with r1 r0 have "r1 = r0" by (rule purchaser_stats_unique)
    then show "r' = r" unfolding e1 r_def by simp
  qed
  note st = purchaser_stats_mem [OF r0, unfolded p0]
  have tv: "total_bond_value r
      = sum_list (map total_value (filter (\<lambda>g. purchaser_name g = purchaser_name f) df))"
    unfolding r_def score_columns_fields using st by blast
  have pf: "parties_funded r
      = card (party_name ` {g \<in> set df. purchaser_name g = purchaser_name f})"
    unfolding r_def score_columns_fields using st by blast
  have sc: "political_score r
             = np_round2 (f64_clip 0 100
                 (f64_add
                    (f64_mul
                       (f64_div (f64_of_int (total_bond_value r))
                          (f64_of_int
                             (Max ((\<lambda>p. sum_list (map total_value
                                           (filter (\<lambda>g. purchaser_name g = p) df)))
                                     ` purchaser_name ` set df) + 1)))
                       (Fin 60))
                    (f64_mul
                       (f64_div (f64_of_int (int (parties_funded r)))
                          (f64_of_int
                             (int (Max ((\<lambda>p. card (party_name
                                                ` {g \<in> set df. purchaser_name g = p}))
                                          ` purchaser_name ` set df)) + 1)))
                       (Fin 40))))"
    unfolding r_def score_columns_fields total_bond_value_image parties_funded_image ..
  from mem pr uniq tv pf sc show ?thesis by blast
qed

theorem political_score_formula_witness:
  "purchaser (compute_political_scores
      [example_flow ''Big'' ''A'' 200, example_flow ''Big'' ''B'' 87,
       example_flow ''Small'' ''A'' 5] ! 1) = ''Small''
   \<and> total_bond_value (compute_political_scores
      [example_flow ''Big'' ''A'' 200, example_flow ''Big'' ''B'' 87,
       example_flow ''Small'' ''A'' 5] ! 1) = 5
   \<and> parties_funded (compute_political_scores
      [example_flow ''Big'' ''A'' 200, example_flow ''Big'' ''B'' 87,
       example_flow ''Small'' ''A'' 5] ! 1) = 1
   \<and> political_score (compute_political_scores
      [example_flow ''Big'' ''A'' 200, example_flow ''Big'' ''B'' 87,
       example_flow ''Small'' ''A'' 5] ! 1) = f64_round (1437 / 100)"
proof -
  let ?df = "[example_flow ''Big'' ''A'' 200, example_flow ''Big'' ''B'' 87,
       example_flow ''Small'' ''A'' 5]"
  let ?f = "example_flow ''Small'' ''A'' 5"
  let ?row = "compute_political_scores ?df ! 1"
  have h: "?f \<in> set ?df" by simp
  have name: "purchaser_name ?f = ''Small''" by (simp add: example_flow_def)
  have "length (compute_political_scores ?df) = 2" by code_simp
  then have row: "?row \<in> set (compute_political_scores ?df)" by simp
  have prow: "purchaser ?row = ''Small''" by code_simp
  have tot: "sum_list (map total_value (filter (\<lambda>g. purchaser_name g = ''Small'') ?df)) = 5"
    by (simp add: example_flow_def)
  have cnt: "card (party_name ` {g \<in> set ?df. purchaser_name g = ''Small''}) = 1"
    by code_simp
  have val: "np_round2 (f64_clip 0 100
                 (f64_add
                    (f64_mul
                       (f64_div (f64_of_int 5)
                          (f64_of_int
                             (Max ((\<lambda>p. sum_list (map total_value
                                           (filter (\<lambda>g. purchaser_name g = p) ?df)))
                                     ` purchaser_name ` set ?df) + 1)))
                       (Fin 60))
                    (f64_mul
                       (f64_div (f64_of_int (int 1))
                          (f64_of_int
                             (int (Max ((\<lambda>p. card (party_name
                                                ` {g \<in> set ?df. purchaser_name g = p}))
                                          ` purchaser_name ` set ?df)) + 1)))
                       (Fin 40)))) = f64_round (1437 / 100)"
    by code_simp
  from political_score_formula [OF h] obtain r
    where r: "r \<in> set (compute_political_scores ?df)"
      and u: "\<forall>r'\<in>set (compute_political_scores ?df).
                purchaser r' = purchaser_name ?f \<longrightarrow> r' = r"
      and tv: "total_bond_value r
             = sum_list (map total_value (filter (\<lambda>g. purchaser_name g = purchaser_name ?f) ?df))"
      and pf: "parties_funded r
             = card (party_name ` {g \<in> set ?df. purchaser_name g = purchaser_name ?f})"
      and sc: "political_score r
             = np_round2 (f64_clip 0 100
                 (f64_add
                    (f64_mul
                       (f64_div (f64_of_int (total_bond_value r))
                          (f64_of_int
                             (Max ((\<lambda>p. sum_list (map total_value
                                           (filter (\<lambda>g. purchaser_name g = p) ?df)))
                                     ` purchaser_name ` set ?df) + 1)))
                       (Fin 60))
                    (f64_mul
                       (f64_div (f64_of_int (int (parties_funded r)))
                          (f64_of_int
                             (int (Max ((\<lambda>p. card (party_name
                                                ` {g \<in> set ?df. purchaser_name g = p}))
                                          ` purchaser_name ` set ?df)) + 1)))
                       (Fin 40))))"
    by blast
  from u row prow name have eq: "?row = r" by simp
  have tv': "total_bond_value r = 5" unfolding tv name tot ..
  have pf': "parties_funded r = 1" unfolding pf name cnt ..
  have "political_score r = f64_round (1437 / 100)"
    unfolding sc tv' pf' val ..
  with tv' pf' prow show ?thesis unfolding eq by simp
qed

text \<open>
  Claim C2, as stated, fails: the purchaser that attains both maxima (total value 30 of
  at most 30, two parties of at most two) scores 84.73, not 100.
\<close>

theorem political_score_counterexample:
  "map (\<lambda>r. (purchaser r, total_bond_value r, parties_funded r, political_score r))
     (compute_political_scores
        [example_flow ''Acme'' ''X'' 10, example_flow ''Beta'' ''X'' 5,
         example_flow ''Acme'' ''Y'' 20, example_flow ''Beta'' ''X'' 5])
   = [(''Acme'', 30, 2, f64_round (8473 / 100)), (''Beta'', 10, 1, f64_round (3269 / 100))]"
  by code_simp
section \<open>Properties of the address clusters\<close>

lemma cluster_edges_iff:
  "(a, b) \<in> set (cluster_edges cins)
     \<longleftrightarrow> (\<exists>i j. i < j \<and> j < length cins \<and> cins ! i = a \<and> cins ! j = b)"
proof
  assume "(a, b) \<in> set (cluster_edges cins)"
  then obtain i j where "i < length cins" "i + 1 \<le> j" "j < length cins"
      "a = cins ! i" "b = cins ! j"
    unfolding cluster_edges_def by auto
  then have "i < j \<and> j < length cins \<and> cins ! i = a \<and> cins ! j = b" by simp
  then show "\<exists>i j. i < j \<and> j < length cins \<and> cins ! i = a \<and> cins ! j = b" by blast
next
  assume "\<exists>i j. i < j \<and> j < length cins \<and> cins ! i = a \<and> cins ! j = b"
  then obtain i j where ij: "i < j" "j < length cins" "cins ! i = a" "cins ! j = b"
    by blast
  then have "i \<in> set [0 ..< length cins]" "j \<in> set [i + 1 ..< length cins]" by simp_all
  then have "(cins ! i, cins ! j)
      \<in> (\<Union>i\<in>set [0 ..< length cins]. (\<lambda>j. (cins ! i, cins ! j)) ` set [i + 1 ..< length cins])"
    by blast
  with ij show "(a, b) \<in> set (cluster_edges cins)"
    unfolding cluster_edges_def by simp
qed

lemma pairs_sorted_wrt:
  "(\<exists>i j. i < j \<and> j < length xs \<and> Q (xs ! i) (xs ! j))
     \<longleftrightarrow> \<not> sorted_wrt (\<lambda>x y. \<not> Q x y) xs"
  by (auto simp: sorted_wrt_iff_nth_less)

lemma sorted_wrt_filter_iff:
  "sorted_wrt R (filter P xs) \<longleftrightarrow> sorted_wrt (\<lambda>x y. P x \<and> P y \<longrightarrow> R x y) xs"
  by (induction xs) auto

lemma pairs_map_filter:
  "(\<exists>i j. i < j \<and> j < length (map f (filter P xs))
          \<and> map f (filter P xs) ! i = a \<and> map f (filter P xs) ! j = b)
     \<longleftrightarrow> (\<exists>i j. i < j \<and> j < length xs \<and> P (xs ! i) \<and> P (xs ! j)
              \<and> f (xs ! i) = a \<and> f (xs ! j) = b)"
proof -
  let ?Q = "\<lambda>x y. P x \<and> P y \<and> f x = a \<and> f y = b"
  have eq: "(\<lambda>x y. P x \<and> P y \<longrightarrow> \<not> (f x = a \<and> f y = b)) = (\<lambda>x y. \<not> ?Q x y)"
    by (intro ext) blast
  have "(\<exists>i j. i < j \<and> j < length (map f (filter P xs))
          \<and> map f (filter P xs) ! i = a \<and> map f (filter P xs) ! j = b)
      \<longleftrightarrow> \<not> sorted_wrt (\<lambda>x y. \<not> (x = a \<and> y = b)) (map f (filter P xs))"
    by (rule pairs_sorted_wrt [where Q = "\<lambda>x y. x = a \<and> y = b"])
  also have "\<dots> \<longleftrightarrow> \<not> sorted_wrt (\<lambda>x y. \<not> ?Q x y) xs"
    unfolding sorted_wrt_map sorted_wrt_filter_iff eq ..
  also have "\<dots> \<longleftrightarrow> (\<exists>i j. i < j \<and> j < length xs \<and> ?Q (xs ! i) (xs ! j))"
    by (rule pairs_sorted_wrt [symmetric])
  finally show ?thesis by (simp add: conj_assoc)
qed

lemma cluster_size_of_pos: "i < length df \<Longrightarrow> 0 < cluster_size_of df (addr_key (df ! i))"
  unfolding cluster_size_of_def by (auto simp: length_greater_0_conv filter_empty_conv)

lemma address_clustering_nth:
  assumes "i < length df"
  shows "CIN (address_clustering df ! i) = CIN (df ! i)"
    and "addr_key (address_clustering df ! i) = addr_key (df ! i)"
    and "address_cluster_size (address_clustering df ! i) = cluster_size_of df (addr_key (df ! i))"
    and "address_cluster_flag (address_clustering df ! i)
           = (if 3 \<le> cluster_size_of df (addr_key (df ! i)) then 1 else 0)"
  using assms cluster_size_of_pos [OF assms]
  by (simp_all add: address_clustering_def addr_counts_def Let_def cluster_size_of_def
        company.extend_def company.defs)

lemma length_address_clustering: "length (address_clustering df) = length df"
  by (simp add: address_clustering_def)


lemma cluster_members_length:
  "length (filter (\<lambda>r. addr_key r = k)
             (filter (\<lambda>r. 2 \<le> address_cluster_size r) (address_clustering df)))
     = (if 2 \<le> cluster_size_of df k then cluster_size_of df k else 0)"
proof -
  have size: "address_cluster_size (address_clustering df ! i)
        = cluster_size_of df (addr_key (df ! i))" if "i < length df" for i
    using that by (rule address_clustering_nth)
  have key: "addr_key (address_clustering df ! i) = addr_key (df ! i)" if "i < length df" for i
    using that by (rule address_clustering_nth)
  have "length (filter (\<lambda>r. addr_key r = k)
             (filter (\<lambda>r. 2 \<le> address_cluster_size r) (address_clustering df)))
      = card {i. i < length (address_clustering df)
                \<and> 2 \<le> address_cluster_size (address_clustering df ! i)
                \<and> addr_key (address_clustering df ! i) = k}"
    by (simp add: length_filter_conv_card conj_commute)
  also have "{i. i < length (address_clustering df)
                \<and> 2 \<le> address_cluster_size (address_clustering df ! i)
                \<and> addr_key (address_clustering df ! i) = k}
      = {i. i < length df \<and> 2 \<le> cluster_size_of df k \<and> addr_key (df ! i) = k}"
    using size key by (auto simp: length_address_clustering)
  also have "card \<dots> = (if 2 \<le> cluster_size_of df k then cluster_size_of df k else 0)"
    by (simp add: cluster_size_of_def length_filter_conv_card)
  finally show ?thesis .
qed

lemma address_network_edges_iff:
  "(a, b) \<in> set (edges (address_network (address_clustering df)))
     \<longleftrightarrow> (\<exists>p q. p < q \<and> q < length df \<and> addr_key (df ! p) = addr_key (df ! q)
              \<and> 2 \<le> cluster_size_of df (addr_key (df ! p))
              \<and> cluster_size_of df (addr_key (df ! p)) \<le> 50
              \<and> CIN (df ! p) = a \<and> CIN (df ! q) = b)"
  (is "?L \<longleftrightarrow> ?R")
proof -
  let ?df2 = "address_clustering df"
  let ?big = "filter (\<lambda>r. 2 \<le> address_cluster_size r) ?df2"
  let ?cins = "\<lambda>k. map CIN (filter (\<lambda>r. addr_key r = k) ?big)"
  have len: "length (?cins k) = (if 2 \<le> cluster_size_of df k then cluster_size_of df k else 0)"
    for k
    using cluster_members_length [of k df] by simp
  have pairs: "(a, b) \<in> set (cluster_edges (?cins k))
      \<longleftrightarrow> (\<exists>p q. p < q \<and> q < length df \<and> 2 \<le> cluster_size_of df k
             \<and> addr_key (df ! p) = k \<and> addr_key (df ! q) = k
             \<and> CIN (df ! p) = a \<and> CIN (df ! q) = b)" for k
  proof -
    have "(a, b) \<in> set (cluster_edges (?cins k))
        \<longleftrightarrow> (\<exists>i j. i < j \<and> j < length ?df2
               \<and> (2 \<le> address_cluster_size (?df2 ! i) \<and> addr_key (?df2 ! i) = k)
               \<and> (2 \<le> address_cluster_size (?df2 ! j) \<and> addr_key (?df2 ! j) = k)
               \<and> CIN (?df2 ! i) = a \<and> CIN (?df2 ! j) = b)"
      unfolding cluster_edges_iff filter_filter
      by (rule pairs_map_filter)
    also have "\<dots> \<longleftrightarrow> (\<exists>p q. p < q \<and> q < length df \<and> 2 \<le> cluster_size_of df k
             \<and> addr_key (df ! p) = k \<and> addr_key (df ! q) = k
             \<and> CIN (df ! p) = a \<and> CIN (df ! q) = b)"
      unfolding length_address_clustering
      by (intro ex_cong1 iffI; clarsimp simp: address_clustering_nth)
    finally show ?thesis .
  qed
  have "?L \<longleftrightarrow> (\<exists>k\<in>set (map addr_key ?big). 1 < length (?cins k) \<and> length (?cins k) \<le> 50
                  \<and> (a, b) \<in> set (cluster_edges (?cins k)))"
    by (auto simp: address_network_def clusters_def Let_def split: if_splits)
  also have "\<dots> \<longleftrightarrow> (\<exists>k. 2 \<le> cluster_size_of df k \<and> cluster_size_of df k \<le> 50
                  \<and> (a, b) \<in> set (cluster_edges (?cins k)))"
  proof (intro iffI; elim bexE exE conjE)
    fix k assume "1 < length (?cins k)" "length (?cins k) \<le> 50"
      "(a, b) \<in> set (cluster_edges (?cins k))"
    then show "\<exists>k. 2 \<le> cluster_size_of df k \<and> cluster_size_of df k \<le> 50
                  \<and> (a, b) \<in> set (cluster_edges (?cins k))"
      unfolding len by (intro exI [of _ k]) (auto split: if_splits)
  next
    fix k assume k: "2 \<le> cluster_size_of df k" "cluster_size_of df k \<le> 50"
      and e: "(a, b) \<in> set (cluster_edges (?cins k))"
    from e obtain i where "i < length (?cins k)"
      unfolding cluster_edges_iff by (meson less_trans)
    then have "filter (\<lambda>r. addr_key r = k) ?big \<noteq> []" by auto
    then have "k \<in> set (map addr_key ?big)"
      by (auto simp: filter_empty_conv)
    with k e show "\<exists>k\<in>set (map addr_key ?big). 1 < length (?cins k) \<and> length (?cins k) \<le> 50
                  \<and> (a, b) \<in> set (cluster_edges (?cins k))"
      unfolding len by (intro bexI [of _ k]) auto
  qed
  also have "\<dots> \<longleftrightarrow> ?R"
    unfolding pairs by (auto; metis)
  finally show ?thesis .
qed


lemma cluster_size_of_ge2:
  assumes "i < length df" "j < length df" "i \<noteq> j" "addr_key (df ! j) = addr_key (df ! i)"
  shows "2 \<le> cluster_size_of df (addr_key (df ! i))"
proof -
  let ?S = "{n. n < length df \<and> addr_key (df ! n) = addr_key (df ! i)}"
  have "finite ?S" by simp
  moreover from assms have "{i, j} \<subseteq> ?S" by simp
  ultimately have "card {i, j} \<le> card ?S" by (rule card_mono)
  with assms(3) show ?thesis
    by (simp add: cluster_size_of_def length_filter_conv_card)
qed

text \<open>
  Claim C8. For every row of the company frame, the recorded cluster size is the number of
  rows with the same address key and the address-cluster flag is 1 exactly when that size
  is at least 3, whatever edges exist. An edge is added exactly for two rows, taken in the
  order of the frame, that share a key whose cluster has between 2 and 50 rows; so any two
  rows of such a cluster are joined, and a cluster of more than 50 rows adds no edge.
\<close>

theorem address_cluster_flag_and_edges:
  assumes "i < length df"
  shows "address_cluster_size (fst (score_companies df) ! i)
           = cluster_size_of df (addr_key (df ! i))
       \<and> (address_cluster_flag (fst (score_companies df) ! i) = 1
            \<longleftrightarrow> 3 \<le> address_cluster_size (fst (score_companies df) ! i))
       \<and> ((a, b) \<in> set (edges (snd (score_companies df)))
            \<longleftrightarrow> (\<exists>p q. p < q \<and> q < length df \<and> addr_key (df ! p) = addr_key (df ! q)
                   \<and> 2 \<le> cluster_size_of df (addr_key (df ! p))
                   \<and> cluster_size_of df (addr_key (df ! p)) \<le> 50
                   \<and> CIN (df ! p) = a \<and> CIN (df ! q) = b))
       \<and> (\<forall>j<length df. j \<noteq> i \<and> addr_key (df ! j) = addr_key (df ! i)
              \<and> cluster_size_of df (addr_key (df ! i)) \<le> 50
            \<longrightarrow> has_edge (snd (score_companies df)) (CIN (df ! i)) (CIN (df ! j)))"
proof (intro conjI allI impI)
  show "address_cluster_size (fst (score_companies df) ! i)
           = cluster_size_of df (addr_key (df ! i))"
    using assms by (simp add: score_companies_def Let_def address_clustering_nth)
  show "address_cluster_flag (fst (score_companies df) ! i) = 1
            \<longleftrightarrow> 3 \<le> address_cluster_size (fst (score_companies df) ! i)"
    using assms by (simp add: score_companies_def Let_def address_clustering_nth)
  show "(a, b) \<in> set (edges (snd (score_companies df)))
            \<longleftrightarrow> (\<exists>p q. p < q \<and> q < length df \<and> addr_key (df ! p) = addr_key (df ! q)
                   \<and> 2 \<le> cluster_size_of df (addr_key (df ! p))
                   \<and> cluster_size_of df (addr_key (df ! p)) \<le> 50
                   \<and> CIN (df ! p) = a \<and> CIN (df ! q) = b)"
    by (simp add: score_companies_def Let_def address_network_edges_iff)
next
  fix j
  assume j: "j < length df"
    and "j \<noteq> i \<and> addr_key (df ! j) = addr_key (df ! i)
              \<and> cluster_size_of df (addr_key (df ! i)) \<le> 50"
  then have ne: "i \<noteq> j" and key: "addr_key (df ! j) = addr_key (df ! i)"
    and le: "cluster_size_of df (addr_key (df ! i)) \<le> 50"
    by auto
  from assms j ne key have ge: "2 \<le> cluster_size_of df (addr_key (df ! i))"
    by (rule cluster_size_of_ge2)
  have G: "edges (snd (score_companies df)) = edges (address_network (address_clustering df))"
    by (simp add: score_companies_def Let_def)
  show "has_edge (snd (score_companies df)) (CIN (df ! i)) (CIN (df ! j))"
  proof (cases "i < j")
    case True
    with j key ge le have "(CIN (df ! i), CIN (df ! j))
        \<in> set (edges (address_network (address_clustering df)))"
      unfolding address_network_edges_iff by (intro exI [of _ i] exI [of _ j]) simp
    then show ?thesis by (simp add: has_edge_def G)
  next
    case False
    with ne have "j < i" by simp
    with assms key ge le have "(CIN (df ! j), CIN (df ! i))
        \<in> set (edges (address_network (address_clustering df)))"
      unfolding address_network_edges_iff by (intro exI [of _ j] exI [of _ i]) simp
    then show ?thesis by (simp add: has_edge_def G)
  qed
qed

theorem address_cluster_flag_and_edges_witness:
  "address_cluster_size
     (fst (score_companies [example_company ''U1'' ''600001|anna'',
        example_company ''U2'' ''600001|anna'', example_company ''U3'' ''600001|anna'']) ! 0)
   = cluster_size_of [example_company ''U1'' ''600001|anna'',
        example_company ''U2'' ''600001|anna'', example_company ''U3'' ''600001|anna'']
       (addr_key ([example_company ''U1'' ''600001|anna'',
        example_company ''U2'' ''600001|anna'', example_company ''U3'' ''600001|anna''] ! 0))
   \<and> address_cluster_flag
     (fst (score_companies [example_company ''U1'' ''600001|anna'',
        example_company ''U2'' ''600001|anna'', example_company ''U3'' ''600001|anna'']) ! 0) = 1
   \<and> edges (snd (score_companies [example_company ''U1'' ''600001|anna'',
        example_company ''U2'' ''600001|anna'', example_company ''U3'' ''600001|anna'']))
     = [(''U1'', ''U2''), (''U1'', ''U3''), (''U2'', ''U3'')]"
proof -
  let ?df = "[example_company ''U1'' ''600001|anna'',
        example_company ''U2'' ''600001|anna'', example_company ''U3'' ''600001|anna'']"
  have h: "0 < length ?df" by simp
  have e: "address_cluster_flag (fst (score_companies ?df) ! 0) = 1
    \<and> edges (snd (score_companies ?df)) = [(''U1'', ''U2''), (''U1'', ''U3''), (''U2'', ''U3'')]"
    by code_simp
  from address_cluster_flag_and_edges [OF h] e show ?thesis by blast
qed

section \<open>Properties of the matcher\<close>

text \<open>
  Claim C4, as stated, fails: "X Ltd" and the indexed "X Limited" both normalise to "x",
  whose only word has one character, so the token set of the query is empty and
  \<open>find_matches\<close> returns no candidate before it looks for an equal normalised name.
\<close>

theorem find_matches_exact_counterexample:
  "normalise_name (Str ''X Ltd'') = ''x''
   \<and> snd (build_inverted_index [(1 :: nat, Str ''X Limited'')])
       = [(1, Str ''X Limited'', ''x'', {})]
   \<and> find_matches sorted_list_of_set (Str ''X Ltd'')
        (fst (build_inverted_index [(1 :: nat, Str ''X Limited'')]))
        (snd (build_inverted_index [(1 :: nat, Str ''X Limited'')])) (55 / 100) 5 = []"
  by code_simp

text \<open>
  Claim C4, amended. When the normalised query has no token, \<open>find_matches\<close> returns the
  empty list. When its token set is not empty and some entry has the normalised name of
  the query, \<open>find_matches\<close> returns exactly one candidate, the first such entry of
  \<open>entries\<close> with the score 1, whatever the index, the threshold, \<open>top_k\<close> and the iteration
  order are: no other candidate is scored.
\<close>

theorem find_matches_exact:
  "(tokenise (normalise_name q) = {}
      \<longrightarrow> find_matches order q index entries threshold top_k = [])
   \<and> (tokenise (normalise_name q) \<noteq> {} \<and> e \<in> set entries
        \<and> fst (snd (snd e)) = normalise_name q
      \<longrightarrow> (\<exists>e'. find (\<lambda>entry. fst (snd (snd entry)) = normalise_name q) entries = Some e'
             \<and> e' \<in> set entries \<and> fst (snd (snd e')) = normalise_name q
             \<and> find_matches order q index entries threshold top_k
                 = [(fst e', fst (snd e'), 1)]))"
proof (intro conjI impI)
  assume "tokenise (normalise_name q) = {}"
  then show "find_matches order q index entries threshold top_k = []"
    by (simp add: find_matches_def Let_def)
next
  assume a: "tokenise (normalise_name q) \<noteq> {} \<and> e \<in> set entries
        \<and> fst (snd (snd e)) = normalise_name q"
  then have "find (\<lambda>entry. fst (snd (snd entry)) = normalise_name q) entries \<noteq> None"
    unfolding find_None_iff by blast
  then obtain e'
    where f: "find (\<lambda>entry. fst (snd (snd entry)) = normalise_name q) entries = Some e'"
    by blast
  then have "e' \<in> set entries" "fst (snd (snd e')) = normalise_name q"
    by (auto simp: find_Some_iff)
  moreover from a f
  have "find_matches order q index entries threshold top_k = [(fst e', fst (snd e'), 1)]"
    by (simp add: find_matches_def Let_def)
  ultimately show "\<exists>e'. find (\<lambda>entry. fst (snd (snd entry)) = normalise_name q) entries = Some e'
             \<and> e' \<in> set entries \<and> fst (snd (snd e')) = normalise_name q
             \<and> find_matches order q index entries threshold top_k
                 = [(fst e', fst (snd e'), 1)]"
    using f by blast
qed

theorem find_matches_exact_witness:
  "find_matches sorted_list_of_set (Str ''XYZ Pvt. Ltd.'')
     (fst (build_inverted_index
        [(1 :: nat, Str ''XYZ Steel''), (2, Str ''XYZ Private Limited''), (3, Str ''XYZ Ltd'')]))
     (snd (build_inverted_index
        [(1 :: nat, Str ''XYZ Steel''), (2, Str ''XYZ Private Limited''), (3, Str ''XYZ Ltd'')]))
     (55 / 100) 5 = [(2, Str ''XYZ Private Limited'', 1)]
   \<and> find_matches sorted_list_of_set (Str ''X Ltd'')
     (fst (build_inverted_index
        [(1 :: nat, Str ''XYZ Steel''), (2, Str ''XYZ Private Limited''), (3, Str ''XYZ Ltd'')]))
     (snd (build_inverted_index
        [(1 :: nat, Str ''XYZ Steel''), (2, Str ''XYZ Private Limited''), (3, Str ''XYZ Ltd'')]))
     (55 / 100) 5 = []"
proof -
  let ?b = "build_inverted_index
        [(1 :: nat, Str ''XYZ Steel''), (2, Str ''XYZ Private Limited''), (3, Str ''XYZ Ltd'')]"
  let ?e = "(2 :: nat, Str ''XYZ Private Limited'', ''xyz'', {''xyz''})"
  have h0: "tokenise (normalise_name (Str ''X Ltd'')) = {}" by code_simp
  have h1: "tokenise (normalise_name (Str ''XYZ Pvt. Ltd.'')) \<noteq> {}" by code_simp
  have h2: "?e \<in> set (snd ?b)" by code_simp
  have h3: "fst (snd (snd ?e)) = normalise_name (Str ''XYZ Pvt. Ltd.'')" by code_simp
  have h4: "find (\<lambda>entry. fst (snd (snd entry)) = normalise_name (Str ''XYZ Pvt. Ltd.''))
              (snd ?b) = Some ?e"
    by code_simp
  from find_matches_exact [of "Str ''XYZ Pvt. Ltd.''" sorted_list_of_set "fst ?b" "snd ?b"
      "55 / 100" 5 ?e] h1 h2 h3
  obtain e' where "find (\<lambda>entry. fst (snd (snd entry)) = normalise_name (Str ''XYZ Pvt. Ltd.''))
              (snd ?b) = Some e'"
    and res: "find_matches sorted_list_of_set (Str ''XYZ Pvt. Ltd.'') (fst ?b) (snd ?b)
                (55 / 100) 5 = [(fst e', fst (snd e'), 1)]"
    by blast
  with h4 have "e' = ?e" by simp
  with res have r1: "find_matches sorted_list_of_set (Str ''XYZ Pvt. Ltd.'') (fst ?b) (snd ?b)
                (55 / 100) 5 = [(2, Str ''XYZ Private Limited'', 1)]"
    by simp
  from find_matches_exact [of "Str ''X Ltd''" sorted_list_of_set "fst ?b" "snd ?b"
      "55 / 100" 5 ?e] h0
  have r2: "find_matches sorted_list_of_set (Str ''X Ltd'') (fst ?b) (snd ?b) (55 / 100) 5 = []"
    by blast
  from r1 r2 show ?thesis by (rule conjI)
qed

section \<open>Properties of the name normaliser\<close>

lemma az09_not_space: "is_az09 c \<Longrightarrow> \<not> py_isspace c"
  by (auto simp: is_az09_def py_isspace_def)

lemma az09_word: "is_az09 c \<Longrightarrow> re_word c"
  by (auto simp: is_az09_def re_word_def)

lemma space_not_word: "py_isspace c \<Longrightarrow> \<not> re_word c"
  by (auto simp: py_isspace_def re_word_def)

lemma az09_lower: "is_az09 c \<Longrightarrow> lower_char c = c"
  by (auto simp: is_az09_def lower_char_def)

lemma cp_space: "cp (CHR '' '') = 32"
  by (simp add: cp_def)

lemma space_isspace: "py_isspace (CHR '' '')"
  by (simp add: py_isspace_def cp_space)

lemma space_lower: "lower_char (CHR '' '') = CHR '' ''"
  by (simp add: lower_char_def cp_space)

declare re_sub_word.simps(2) [simp del]
declare py_split.simps [simp del]

lemma no_match_space:
  assumes "az_word p" "py_isspace c"
  shows "\<not> match_here p pw (c # cs)"
proof
  assume m: "match_here p pw (c # cs)"
  then have "p \<noteq> []" "take (length p) (c # cs) = p" by (auto simp: match_here_def)
  then have "hd p = c" by (cases p) auto
  moreover from assms(1) \<open>p \<noteq> []\<close> have "is_az09 (hd p)"
    by (cases p) (auto simp: az_word_def)
  ultimately show False using assms(2) az09_not_space by blast
qed

lemma no_match_midword:
  assumes "az_word p"
  shows "\<not> match_here p True s"
proof -
  from assms have "re_word (hd p)"
    by (cases p) (auto simp: az_word_def az09_word)
  then show ?thesis by (simp add: match_here_def)
qed

lemma re_sub_word_no_match:
  "\<not> match_here p pw (c # cs) \<Longrightarrow> re_sub_word p pw (c # cs) = c # re_sub_word p (re_word c) cs"
  by (simp add: re_sub_word.simps(2))

lemma re_sub_word_match:
  "match_here p pw (c # cs)
     \<Longrightarrow> re_sub_word p pw (c # cs)
         = re_sub_word p (re_word (last p)) (drop (length p) (c # cs))"
  by (simp add: re_sub_word.simps(2))

lemma re_sub_word_space:
  assumes "az_word p" "py_isspace c"
  shows "re_sub_word p pw (c # cs) = c # re_sub_word p False cs"
  using re_sub_word_no_match [OF no_match_space [OF assms]] space_not_word [OF assms(2)]
  by simp

lemma clean_Cons [simp]: "clean (c # cs) \<longleftrightarrow> (is_az09 c \<or> py_isspace c) \<and> clean cs"
  by (simp add: clean_def)

lemma clean_Nil [simp]: "clean []"
  by (simp add: clean_def)

lemma re_sub_word_midword:
  assumes "az_word p" "clean s"
  shows "re_sub_word p True s
           = takeWhile (\<lambda>c. \<not> py_isspace c) s
             @ re_sub_word p False (dropWhile (\<lambda>c. \<not> py_isspace c) s)"
  using assms(2)
proof (induction s)
  case Nil
  then show ?case by simp
next
  case (Cons c cs)
  show ?case
  proof (cases "py_isspace c")
    case True
    then show ?thesis by (simp add: re_sub_word_space [OF assms(1)])
  next
    case False
    with Cons.prems have w: "re_word c" by (simp add: az09_word)
    have "re_sub_word p True (c # cs) = c # re_sub_word p (re_word c) cs"
      by (rule re_sub_word_no_match [OF no_match_midword [OF assms(1)]])
    with w False Cons show ?thesis by simp
  qed
qed

lemma at_break_simps [simp]:
  "at_break []" "at_break (c # cs) \<longleftrightarrow> py_isspace c"
  by (simp_all add: at_break_def)

lemma at_break_dropWhile: "at_break (dropWhile (\<lambda>c. \<not> py_isspace c) s)"
  by (induction s) auto

lemma takeWhile_word:
  assumes "list_all (\<lambda>c. \<not> py_isspace c) w" "at_break t"
  shows "takeWhile (\<lambda>c. \<not> py_isspace c) (w @ t) = w"
    and "dropWhile (\<lambda>c. \<not> py_isspace c) (w @ t) = t"
  using assms by (induction w) (auto simp: at_break_def split: list.splits)

lemma az_word_no_space: "az_word p \<Longrightarrow> list_all (\<lambda>c. \<not> py_isspace c) p"
  by (auto simp: az_word_def list_all_iff az09_not_space)

lemma az_word_ends: "az_word p \<Longrightarrow> re_word (hd p) \<and> re_word (last p)"
  by (auto simp: az_word_def list_all_iff az09_word)

lemma clean_drop: "clean s \<Longrightarrow> clean (drop n s)"
  by (auto simp: clean_def list_all_iff dest: in_set_dropD)

lemma next_is_word_clean: "clean t \<Longrightarrow> next_is_word t \<longleftrightarrow> \<not> at_break t"
  by (cases t) (auto simp: next_is_word_def az09_word az09_not_space space_not_word)

lemma match_here_word_start:
  assumes p: "az_word p" and s: "clean s"
  shows "match_here p False s \<longleftrightarrow> takeWhile (\<lambda>c. \<not> py_isspace c) s = p"
proof
  assume m: "match_here p False s"
  let ?t = "drop (length p) s"
  from m have tk: "take (length p) s = p" and nx: "\<not> next_is_word ?t"
    using az_word_ends [OF p] by (auto simp: match_here_def)
  have st: "s = p @ ?t" using tk by (metis append_take_drop_id)
  from nx have "at_break ?t"
    using next_is_word_clean [OF clean_drop [OF s]] by blast
  with az_word_no_space [OF p]
  have "takeWhile (\<lambda>c. \<not> py_isspace c) (p @ ?t) = p"
    by (rule takeWhile_word(1))
  with st show "takeWhile (\<lambda>c. \<not> py_isspace c) s = p" by simp
next
  assume t: "takeWhile (\<lambda>c. \<not> py_isspace c) s = p"
  let ?r = "dropWhile (\<lambda>c. \<not> py_isspace c) s"
  have st: "s = p @ ?r" using t by (metis takeWhile_dropWhile_id)
  then have tk: "take (length p) s = p" and dr: "drop (length p) s = ?r"
    by (metis append_eq_conv_conj)+
  have "clean ?r" using s by (auto simp: clean_def list_all_iff dest: set_dropWhileD)
  then have "\<not> next_is_word ?r"
    using next_is_word_clean at_break_dropWhile by blast
  with tk dr az_word_ends [OF p] p show "match_here p False s"
    by (auto simp: match_here_def az_word_def)
qed

lemma at_break_takeWhile:
  assumes "at_break t"
  shows "takeWhile (\<lambda>c. \<not> py_isspace c) t = []"
    and "dropWhile (\<lambda>c. \<not> py_isspace c) t = t"
  using takeWhile_word [of "[]" t] assms by simp_all

lemma clean_dropWhile: "clean s \<Longrightarrow> clean (dropWhile P s)"
  by (auto simp: clean_def list_all_iff dest: set_dropWhileD)

lemma re_sub_word_at_break:
  assumes "az_word p" "clean r" "at_break r"
  shows "re_sub_word p True r = re_sub_word p False r"
  using re_sub_word_midword [OF assms(1,2)] at_break_takeWhile [OF assms(3)] by simp

lemma re_sub_word_word_start:
  assumes p: "az_word p" and s: "clean (c # cs)" and c: "\<not> py_isspace c"
  shows "re_sub_word p False (c # cs)
           = (if takeWhile (\<lambda>c. \<not> py_isspace c) (c # cs) = p then []
              else takeWhile (\<lambda>c. \<not> py_isspace c) (c # cs))
             @ re_sub_word p False (dropWhile (\<lambda>c. \<not> py_isspace c) (c # cs))"
proof (cases "match_here p False (c # cs)")
  case True
  define r where "r = dropWhile (\<lambda>c. \<not> py_isspace c) (c # cs)"
  have r: "clean r" "at_break r"
    unfolding r_def by (rule clean_dropWhile [OF s], rule at_break_dropWhile)
  from True have w: "takeWhile (\<lambda>c. \<not> py_isspace c) (c # cs) = p"
    using match_here_word_start [OF p s] by blast
  then have "c # cs = p @ r" unfolding r_def by (metis takeWhile_dropWhile_id)
  then have dr: "drop (length p) (c # cs) = r" by (metis append_eq_conv_conj)
  have "re_sub_word p False (c # cs) = re_sub_word p (re_word (last p)) r"
    using re_sub_word_match [OF True] unfolding dr .
  also have "\<dots> = re_sub_word p True r"
    using az_word_ends [OF p] by simp
  also have "\<dots> = re_sub_word p False r"
    by (rule re_sub_word_at_break [OF p r])
  finally show ?thesis unfolding w r_def by simp
next
  case False
  then have w: "takeWhile (\<lambda>c. \<not> py_isspace c) (c # cs) \<noteq> p"
    using match_here_word_start [OF p s] by blast
  from s c have "re_word c" by (auto simp: az09_word)
  with re_sub_word_no_match [OF False]
  have "re_sub_word p False (c # cs) = c # re_sub_word p True cs" by simp
  also have "\<dots> = c # takeWhile (\<lambda>c. \<not> py_isspace c) cs
      @ re_sub_word p False (dropWhile (\<lambda>c. \<not> py_isspace c) cs)"
    using re_sub_word_midword [OF p, of cs] s by simp
  finally show ?thesis using w c by simp
qed

lemma at_break_re_sub_word:
  assumes "az_word p" "at_break t"
  shows "at_break (re_sub_word p False t)"
  using assms by (cases t) (simp_all add: re_sub_word_space)

lemma set_re_sub_word: "set (re_sub_word p b s) \<subseteq> set s"
proof (induction p b s rule: re_sub_word.induct)
  case (1 pat pw)
  then show ?case by simp
next
  case (2 pat pw c cs)
  show ?case
  proof (cases "match_here pat pw (c # cs)")
    case True
    with 2 have "set (re_sub_word pat pw (c # cs)) \<subseteq> set (drop (length pat) (c # cs))"
      by (simp add: re_sub_word_match)
    then show ?thesis using set_drop_subset by fastforce
  next
    case False
    with 2 show ?thesis by (auto simp: re_sub_word_no_match)
  qed
qed

lemma clean_re_sub_word: "clean s \<Longrightarrow> clean (re_sub_word p b s)"
  using set_re_sub_word [of p b s] by (auto simp: clean_def list_all_iff)

lemma py_split_Nil [simp]: "py_split [] = []"
  by (simp add: py_split.simps)

lemma py_split_dropWhile: "py_split (dropWhile py_isspace s) = py_split s"
  by (subst py_split.simps, subst (2) py_split.simps) (simp add: dropWhile_idem)

lemma py_split_space: "py_isspace c \<Longrightarrow> py_split (c # cs) = py_split cs"
  using py_split_dropWhile [of "c # cs"] py_split_dropWhile [of cs] by simp

lemma py_split_word:
  assumes "w \<noteq> []" "list_all (\<lambda>c. \<not> py_isspace c) w" "at_break t"
  shows "py_split (w @ t) = w # py_split t"
proof -
  from assms(1) obtain c w' where w: "w = c # w'" by (cases w) auto
  with assms(2) have c: "\<not> py_isspace c" and w': "list_all (\<lambda>c. \<not> py_isspace c) w'"
    by simp_all
  from c have "dropWhile py_isspace (w @ t) = c # (w' @ t)" by (simp add: w)
  then show ?thesis
    by (subst py_split.simps) (simp add: w takeWhile_word [OF w' assms(3)])
qed

lemma word_split:
  assumes "\<not> py_isspace c"
  shows "takeWhile (\<lambda>c. \<not> py_isspace c) (c # cs) \<noteq> []"
    and "list_all (\<lambda>c. \<not> py_isspace c) (takeWhile (\<lambda>c. \<not> py_isspace c) (c # cs))"
    and "length (dropWhile (\<lambda>c. \<not> py_isspace c) (c # cs)) < length (c # cs)"
  using assms length_dropWhile_le [of "\<lambda>c. \<not> py_isspace c" cs]
  by (auto simp: list_all_iff dest: set_takeWhileD)

lemma py_split_re_sub_word:
  assumes p: "az_word p"
  shows "clean s \<Longrightarrow> py_split (re_sub_word p False s) = filter (\<lambda>w. w \<noteq> p) (py_split s)"
proof (induction s rule: length_induct)
  case (1 s)
  show ?case
  proof (cases s)
    case Nil
    then show ?thesis by simp
  next
    case (Cons c cs)
    show ?thesis
    proof (cases "py_isspace c")
      case True
      from 1 Cons have "py_split (re_sub_word p False cs) = filter (\<lambda>w. w \<noteq> p) (py_split cs)"
        by simp
      with True show ?thesis
        by (simp add: Cons re_sub_word_space [OF p] py_split_space)
    next
      case False
      define w where "w = takeWhile (\<lambda>c. \<not> py_isspace c) s"
      define r where "r = dropWhile (\<lambda>c. \<not> py_isspace c) s"
      have s: "s = w @ r" by (simp add: w_def r_def)
      have w: "w \<noteq> []" "list_all (\<lambda>c. \<not> py_isspace c) w" and len: "length r < length s"
        unfolding w_def r_def Cons using word_split [OF False] by simp_all
      have r: "clean r" "at_break r"
        unfolding r_def by (rule clean_dropWhile [OF "1.prems"], rule at_break_dropWhile)
      from 1 len r have IH: "py_split (re_sub_word p False r) = filter (\<lambda>w. w \<noteq> p) (py_split r)"
        by simp
      have br: "at_break (re_sub_word p False r)"
        by (rule at_break_re_sub_word [OF p r(2)])
      have sub: "re_sub_word p False s = (if w = p then [] else w) @ re_sub_word p False r"
        unfolding w_def r_def Cons
        using re_sub_word_word_start [OF p _ False, of cs] "1.prems" Cons by simp
      have "py_split s = w # py_split r"
        unfolding s by (rule py_split_word [OF w r(2)])
      moreover have "py_split (re_sub_word p False s)
          = (if w = p then [] else [w]) @ py_split (re_sub_word p False r)"
        unfolding sub using py_split_word [OF w br] by simp
      ultimately show ?thesis using IH by simp
    qed
  qed
qed

lemma py_split_strip_suffixes:
  assumes "\<forall>p\<in>set ps. az_word p" "clean s"
  shows "clean (foldl (\<lambda>n pattern. re_sub_word pattern False n) s ps)
       \<and> py_split (foldl (\<lambda>n pattern. re_sub_word pattern False n) s ps)
           = filter (\<lambda>w. w \<notin> set ps) (py_split s)"
  using assms
proof (induction ps arbitrary: s)
  case Nil
  then show ?case by simp
next
  case (Cons p ps)
  then have p: "az_word p" and ps: "\<forall>p\<in>set ps. az_word p" by simp_all
  have c: "clean (re_sub_word p False s)" by (rule clean_re_sub_word [OF Cons.prems(2)])
  from Cons.IH [OF ps c] py_split_re_sub_word [OF p Cons.prems(2)]
  show ?case by (simp add: conj_commute)
qed

lemma STRIP_SUFFIXES_az: "\<forall>p\<in>set STRIP_SUFFIXES. az_word p"
  by (simp add: STRIP_SUFFIXES_def az_word_def is_az09_def cp_def)

lemma join_space_Cons: "vs \<noteq> [] \<Longrightarrow> join_space (w # vs) = w @ CHR '' '' # join_space vs"
  by (cases vs) auto

lemma join_space_nonempty: "v \<noteq> [] \<Longrightarrow> join_space (v # vs) \<noteq> []"
  by (cases vs) auto

lemma collapse_ws_word:
  "list_all (\<lambda>c. \<not> py_isspace c) w \<Longrightarrow> collapse_ws (w @ t) = w @ collapse_ws t"
  by (induction w) auto

lemma no_lead_space:
  assumes "dropWhile py_isspace t = t" "t = c # cs"
  shows "\<not> py_isspace c"
proof -
  from assms(1) have "t = [] \<or> \<not> py_isspace (hd t)"
    by (simp only: dropWhile_eq_self_iff)
  with assms(2) show ?thesis by simp
qed

lemma collapse_ws_no_lead:
  assumes "dropWhile py_isspace t = t"
  shows "dropWhile py_isspace (collapse_ws t) = collapse_ws t"
proof (cases t)
  case Nil
  then show ?thesis by simp
next
  case (Cons c cs)
  from no_lead_space [OF assms Cons] show ?thesis by (simp add: Cons)
qed

lemma dropWhile_collapse_ws:
  "dropWhile py_isspace (collapse_ws s) = collapse_ws (dropWhile py_isspace s)"
proof (cases s)
  case Nil
  then show ?thesis by simp
next
  case (Cons c cs)
  show ?thesis
  proof (cases "py_isspace c")
    case True
    have "dropWhile py_isspace (collapse_ws (dropWhile py_isspace cs))
        = collapse_ws (dropWhile py_isspace cs)"
      by (rule collapse_ws_no_lead) (simp add: dropWhile_idem)
    with True show ?thesis by (simp add: Cons space_isspace)
  next
    case False
    then show ?thesis by (simp add: Cons)
  qed
qed

lemma rstrip_append:
  assumes "rev (dropWhile py_isspace (rev b)) \<noteq> []"
  shows "rev (dropWhile py_isspace (rev (a @ b))) = a @ rev (dropWhile py_isspace (rev b))"
proof -
  from assms have "\<not> (\<forall>x\<in>set (rev b). py_isspace x)" by auto
  then show ?thesis by (auto simp: dropWhile_append)
qed

lemma rstrip_spaces:
  assumes "\<forall>x\<in>set b. py_isspace x"
  shows "rev (dropWhile py_isspace (rev (a @ b))) = rev (dropWhile py_isspace (rev a))"
  using assms by (simp add: dropWhile_append)

lemma rstrip_word:
  assumes "w \<noteq> []" "\<not> py_isspace (last w)"
  shows "rev (dropWhile py_isspace (rev w)) = w"
proof -
  from assms have "dropWhile py_isspace (rev w) = rev w"
    by (simp add: dropWhile_eq_self_iff hd_rev)
  then show ?thesis by simp
qed

lemma py_split_head:
  assumes "\<not> py_isspace e"
  shows "\<exists>v vs. py_split (e # es) = v # vs \<and> v \<noteq> []"
  using assms by (subst py_split.simps) simp

lemma rstrip_collapse_ws:
  "dropWhile py_isspace t = t
     \<Longrightarrow> rev (dropWhile py_isspace (rev (collapse_ws t))) = join_space (py_split t)"
proof (induction t rule: length_induct)
  case (1 t)
  show ?case
  proof (cases t)
    case Nil
    then show ?thesis by simp
  next
    case (Cons c cs)
    with "1.prems" have c: "\<not> py_isspace c" by (rule no_lead_space)
    define w where "w = takeWhile (\<lambda>c. \<not> py_isspace c) t"
    define r where "r = dropWhile (\<lambda>c. \<not> py_isspace c) t"
    have t: "t = w @ r" by (simp add: w_def r_def)
    have w: "w \<noteq> []" "list_all (\<lambda>c. \<not> py_isspace c) w" and len: "length r < length t"
      unfolding w_def r_def Cons using word_split [OF c] by simp_all
    have r: "at_break r" unfolding r_def by (rule at_break_dropWhile)
    from w have lw: "\<not> py_isspace (last w)"
      by (metis last_in_set list_all_iff)
    have col: "collapse_ws t = w @ collapse_ws r"
      unfolding t by (rule collapse_ws_word [OF w(2)])
    have spl: "py_split t = w # py_split r"
      unfolding t by (rule py_split_word [OF w r])
    show ?thesis
    proof (cases r)
      case Nil
      then show ?thesis using col spl rstrip_word [OF w(1) lw] by simp
    next
      case (Cons d ds)
      with r have d: "py_isspace d" by simp
      define t' where "t' = dropWhile py_isspace ds"
      have t'fix: "dropWhile py_isspace t' = t'" by (simp add: t'_def dropWhile_idem)
      have "length t' \<le> length ds" unfolding t'_def by (rule length_dropWhile_le)
      with len Cons have len': "length t' < length t" by simp
      from 1 len' t'fix
      have IH: "rev (dropWhile py_isspace (rev (collapse_ws t'))) = join_space (py_split t')"
        by simp
      have colr: "collapse_ws r = CHR '' '' # collapse_ws t'"
        using d by (simp add: Cons t'_def)
      have splr: "py_split r = py_split t'"
        using d py_split_dropWhile [of ds] by (simp add: Cons t'_def py_split_space)
      show ?thesis
      proof (cases t')
        case Nil
        then have "collapse_ws t = w @ [CHR '' '']" using col colr by simp
        moreover have "rev (dropWhile py_isspace (rev (w @ [CHR '' '']))) = w"
          using rstrip_spaces [of "[CHR '' '']" w] rstrip_word [OF w(1) lw]
          by (simp add: space_isspace)
        ultimately show ?thesis using spl splr Nil by simp
      next
        case (Cons e es)
        with t'fix have e: "\<not> py_isspace e" by (rule no_lead_space)
        from py_split_head [OF e, of es] obtain v vs where vs: "py_split t' = v # vs" "v \<noteq> []"
          unfolding Cons by blast
        then have ne: "rev (dropWhile py_isspace (rev (collapse_ws t'))) \<noteq> []"
          using IH join_space_nonempty by simp
        have "rev (dropWhile py_isspace (rev (collapse_ws t)))
            = rev (dropWhile py_isspace (rev ((w @ [CHR '' '']) @ collapse_ws t')))"
          using col colr by simp
        also have "\<dots> = (w @ [CHR '' '']) @ rev (dropWhile py_isspace (rev (collapse_ws t')))"
          by (rule rstrip_append [OF ne])
        also have "\<dots> = join_space (w # py_split t')"
          using IH vs by (simp add: join_space_Cons)
        finally show ?thesis using spl splr by simp
      qed
    qed
  qed
qed

lemma strip_collapse_ws: "py_strip (collapse_ws s) = join_space (py_split s)"
proof -
  have "py_strip (collapse_ws s)
      = rev (dropWhile py_isspace (rev (collapse_ws (dropWhile py_isspace s))))"
    by (simp add: py_strip_def dropWhile_collapse_ws)
  also have "\<dots> = join_space (py_split (dropWhile py_isspace s))"
    by (rule rstrip_collapse_ws) (simp add: dropWhile_idem)
  finally show ?thesis by (simp add: py_split_dropWhile)
qed

lemma py_split_words:
  "w \<in> set (py_split s) \<Longrightarrow> w \<noteq> [] \<and> set w \<subseteq> set s \<and> list_all (\<lambda>c. \<not> py_isspace c) w"
proof (induction s arbitrary: w rule: py_split.induct)
  case (1 s)
  show ?case
  proof (cases "dropWhile py_isspace s")
    case Nil
    with "1.prems" show ?thesis by (subst (asm) py_split.simps) simp
  next
    case (Cons c cs)
    have sub: "set (c # cs) \<subseteq> set s"
      using set_dropWhileD [of _ py_isspace s] unfolding Cons by blast
    have c: "\<not> py_isspace c" using hd_dropWhile [of py_isspace s] Cons by simp
    from "1.prems" Cons
    have "w = c # takeWhile (\<lambda>x. \<not> py_isspace x) cs
        \<or> w \<in> set (py_split (dropWhile (\<lambda>x. \<not> py_isspace x) cs))"
      by (subst (asm) py_split.simps) simp
    then show ?thesis
    proof
      assume w: "w = c # takeWhile (\<lambda>x. \<not> py_isspace x) cs"
      have "set (takeWhile (\<lambda>x. \<not> py_isspace x) cs) \<subseteq> set cs"
        by (auto dest: set_takeWhileD)
      with sub c show ?thesis
        unfolding w by (auto simp: list_all_iff dest: set_takeWhileD)
    next
      assume "w \<in> set (py_split (dropWhile (\<lambda>x. \<not> py_isspace x) cs))"
      from "1.IH" [OF Cons this]
      have "w \<noteq> []" "set w \<subseteq> set (dropWhile (\<lambda>x. \<not> py_isspace x) cs)"
        "list_all (\<lambda>c. \<not> py_isspace c) w" by simp_all
      moreover have "set (dropWhile (\<lambda>x. \<not> py_isspace x) cs) \<subseteq> set cs"
        by (auto dest: set_dropWhileD)
      ultimately show ?thesis using sub by auto
    qed
  qed
qed

lemma py_split_clean_az:
  assumes "clean s" "w \<in> set (py_split s)"
  shows "az_word w"
proof -
  from py_split_words [OF assms(2)]
  have "w \<noteq> []" "set w \<subseteq> set s" "list_all (\<lambda>c. \<not> py_isspace c) w" by simp_all
  with assms(1) show ?thesis
    by (auto simp: az_word_def clean_def list_all_iff)
qed

lemma py_split_join_space:
  "\<forall>w\<in>set gs. az_word w \<Longrightarrow> py_split (join_space gs) = gs"
proof (induction gs rule: join_space.induct)
  case 1
  then show ?case by simp
next
  case (2 w)
  then have "az_word w" by simp
  then have "py_split (w @ []) = w # py_split []"
    by (intro py_split_word az_word_no_space) (simp_all add: az_word_def)
  then show ?case by simp
next
  case (3 w v ws)
  then have w: "az_word w" and IH: "py_split (join_space (v # ws)) = v # ws" by simp_all
  from w have "py_split (w @ CHR '' '' # join_space (v # ws))
      = w # py_split (CHR '' '' # join_space (v # ws))"
    by (intro py_split_word az_word_no_space) (simp_all add: az_word_def space_isspace)
  with IH show ?case by (simp add: py_split_space space_isspace)
qed

lemma join_space_chars:
  "\<forall>w\<in>set gs. az_word w \<Longrightarrow> c \<in> set (join_space gs) \<Longrightarrow> is_az09 c \<or> c = CHR '' ''"
  by (induction gs rule: join_space.induct) (auto simp: az_word_def list_all_iff)

lemma join_space_ends:
  "gs \<noteq> [] \<Longrightarrow> \<forall>w\<in>set gs. az_word w
     \<Longrightarrow> join_space gs \<noteq> [] \<and> is_az09 (hd (join_space gs)) \<and> is_az09 (last (join_space gs))"
proof (induction gs rule: join_space.induct)
  case 1
  then show ?case by simp
next
  case (2 w)
  then show ?case by (cases w) (auto simp: az_word_def list_all_iff)
next
  case (3 w v ws)
  then have "az_word w" by simp
  then have "w \<noteq> []" "is_az09 (hd w)" by (cases w; simp add: az_word_def)+
  with 3 show ?case by simp
qed

lemma py_strip_join_space:
  assumes "\<forall>w\<in>set gs. az_word w"
  shows "py_strip (join_space gs) = join_space gs"
proof (cases gs)
  case Nil
  then show ?thesis by (simp add: py_strip_def)
next
  case (Cons g gs')
  then have "gs \<noteq> []" by simp
  from join_space_ends [OF this assms]
  have ne: "join_space gs \<noteq> []" and h: "\<not> py_isspace (hd (join_space gs))"
    and l: "\<not> py_isspace (last (join_space gs))"
    by (simp_all add: az09_not_space)
  from ne h have "dropWhile py_isspace (join_space gs) = join_space gs"
    by (simp add: dropWhile_eq_self_iff)
  then show ?thesis
    unfolding py_strip_def using rstrip_word [OF ne l] by simp
qed

lemma py_lower_join_space:
  assumes "\<forall>w\<in>set gs. az_word w"
  shows "py_lower (join_space gs) = join_space gs"
  unfolding py_lower_def
proof (rule map_idI)
  fix c assume "c \<in> set (join_space gs)"
  from join_space_chars [OF assms this] show "lower_char c = c"
    using az09_lower space_lower by blast
qed

lemma sub_punct_join_space:
  assumes "\<forall>w\<in>set gs. az_word w"
  shows "map (\<lambda>c. if is_az09 c \<or> py_isspace c then c else CHR '' '') (join_space gs)
           = join_space gs"
  using join_space_chars [OF assms] by (intro map_idI) auto

lemma clean_sub_punct:
  "clean (map (\<lambda>c. if is_az09 c \<or> py_isspace c then c else CHR '' '') s)"
  by (auto simp: clean_def list_all_iff space_isspace)

lemma normalise_name_words:
  "normalise_name (Str s)
     = join_space (filter (\<lambda>w. w \<notin> set STRIP_SUFFIXES)
         (py_split (map (\<lambda>c. if is_az09 c \<or> py_isspace c then c else CHR '' '')
                      (py_strip (py_lower s)))))"
  using py_split_strip_suffixes [OF STRIP_SUFFIXES_az clean_sub_punct]
  by (simp add: normalise_name_def Let_def strip_collapse_ws)

text \<open>
  Claim C10. \<open>normalise_name\<close> is idempotent: normalising the normalised name of a string
  gives the same name again, and an input that is not a string gives the empty string
  (which is a fixed point as well).
\<close>

theorem normalise_name_idempotent:
  "normalise_name (Str (normalise_name (Str s))) = normalise_name (Str s)
   \<and> normalise_name (Str (normalise_name v)) = normalise_name v
   \<and> normalise_name (Float x) = [] \<and> normalise_name NoneObj = []"
proof -
  have idem: "normalise_name (Str (normalise_name (Str s))) = normalise_name (Str s)" for s
  proof -
    define gs where "gs = filter (\<lambda>w. w \<notin> set STRIP_SUFFIXES)
         (py_split (map (\<lambda>c. if is_az09 c \<or> py_isspace c then c else CHR '' '')
                      (py_strip (py_lower s))))"
    have n: "normalise_name (Str s) = join_space gs"
      unfolding gs_def by (rule normalise_name_words)
    have az: "\<forall>w\<in>set gs. az_word w"
      unfolding gs_def using py_split_clean_az [OF clean_sub_punct] by auto
    have "normalise_name (Str (join_space gs))
        = join_space (filter (\<lambda>w. w \<notin> set STRIP_SUFFIXES) gs)"
      unfolding normalise_name_words
      by (simp only: py_lower_join_space [OF az] py_strip_join_space [OF az]
            sub_punct_join_space [OF az] py_split_join_space [OF az])
    also have "filter (\<lambda>w. w \<notin> set STRIP_SUFFIXES) gs = gs"
      unfolding gs_def by simp
    finally show ?thesis unfolding n .
  qed
  have empty: "normalise_name (Str []) = []"
    by (simp add: normalise_name_words py_lower_def py_strip_def)
  have "normalise_name (Str (normalise_name v)) = normalise_name v"
  proof (cases v)
    case (Str s)
    then show ?thesis using idem by simp
  next
    case (Float x)
    then show ?thesis using empty by (simp add: normalise_name_def)
  next
    case NoneObj
    then show ?thesis using empty by (simp add: normalise_name_def)
  qed
  with idem show ?thesis by (simp add: normalise_name_def)
qed

theorem normalise_name_idempotent_witness:
  "normalise_name (Str (normalise_name (Str ''  XYZ Pvt. Ltd. ''))) = ''xyz''"
proof -
  have "normalise_name (Str ''  XYZ Pvt. Ltd. '') = ''xyz''" by code_simp
  with normalise_name_idempotent [of "''  XYZ Pvt. Ltd. ''"] show ?thesis by simp
qed

end
